theory Spec2Isabelle
  imports Complex_Main
begin

section \<open>Data model (types/index.ts)\<close>

text \<open>
  JavaScript numbers are modelled as reals: the arithmetic of the source is taken exactly,
  without IEEE rounding, infinities or NaN. \<open>Math.round\<close> rounds half up, as \<^const>\<open>round\<close>
  does. Where the source divides, the quotient of the model agrees with the source whenever
  the divisor is nonzero; at a zero divisor the source computes Infinity or NaN, which the
  reals do not have. A statement about an action that divides therefore assumes the divisor
  nonzero, and a run of actions ends, outside the model, where an action divides by zero.
  Branded string ids are strings. Optional fields are options. The display-only optional
  fields \<open>description\<close>, \<open>color\<close> and \<open>metadata\<close> of a task are not read by any modelled
  operation and are left out.
\<close>

type_synonym TaskId = string
type_synonym ResourceId = string
type_synonym OrderId = string
type_synonym DependencyId = string

datatype PhaseType = phase_setup | phase_execution | phase_cleanup

record TaskPhase =
  phase_type :: PhaseType
  duration :: real
  phase_color :: "string option"

datatype DependencyType = FS | FF | SS | SF

record TaskDependency =
  dep_id :: DependencyId
  predecessorId :: TaskId
  successorId :: TaskId
  dep_type :: DependencyType
  lag :: real

datatype TaskStatus = scheduled | in_progress | completed | blocked

record Constraints =
  earliestStart :: "real option"
  latestEnd :: "real option"
  fixedTime :: "bool option"

text \<open>\<open>StoredTask\<close> is \<open>Task\<close> without the two cached fields \<open>_endTime\<close> and
  \<open>_totalDuration\<close>, written \<open>u_endTime\<close> and \<open>u_totalDuration\<close> here.\<close>

record StoredTask =
  task_id :: TaskId
  startTime :: real
  phases :: "TaskPhase list"
  resourceId :: ResourceId
  orderId :: OrderId
  name :: string
  priority :: real
  status :: TaskStatus
  progress :: real
  constraints :: "Constraints option"

record Task = StoredTask +
  u_endTime :: real
  u_totalDuration :: real

text \<open>\<open>Partial<StoredTask>\<close>: a field that is present is \<open>Some\<close>.\<close>

record TaskUpdates =
  upd_id :: "TaskId option"
  upd_startTime :: "real option"
  upd_phases :: "TaskPhase list option"
  upd_resourceId :: "ResourceId option"
  upd_orderId :: "OrderId option"
  upd_name :: "string option"
  upd_priority :: "real option"
  upd_status :: "TaskStatus option"
  upd_progress :: "real option"
  upd_constraints :: "Constraints option option"

definition no_updates :: TaskUpdates where
  "no_updates = \<lparr> upd_id = None, upd_startTime = None, upd_phases = None,
     upd_resourceId = None, upd_orderId = None, upd_name = None, upd_priority = None,
     upd_status = None, upd_progress = None, upd_constraints = None \<rparr>"

datatype ZoomLevel = hour | day | week | month

record ViewportState =
  scrollX :: real
  timeOrigin :: real
  pixelsPerHour :: real
  scrollY :: real
  rowHeight :: real
  width :: real
  height :: real
  zoomLevel :: ZoomLevel

datatype DragType = move | resize_start | resize_end | reassign

record DragState =
  drag_type :: DragType
  taskId :: TaskId
  originalTask :: Task
  previewStartTime :: real
  previewEndTime :: real
  previewResourceId :: ResourceId
  collisions :: "TaskId list"
  dependencyViolations :: "(DependencyId \<times> string) list"
  startX :: real
  startY :: real
  currentX :: real
  currentY :: real

record VirtualRow =
  row_id :: string
  row_resourceId :: "ResourceId option"
  virtualY :: real
  row_height :: real
  isGroupHeader :: bool

section \<open>Task utilities (utils/task-utils.ts)\<close>

definition calculateTotalDuration :: "TaskPhase list \<Rightarrow> real" where
  "calculateTotalDuration ps = foldl (\<lambda>sum phase. sum + duration phase) 0 ps"

definition hydrateTask :: "StoredTask \<Rightarrow> Task" where
  "hydrateTask task =
     (let totalDuration = calculateTotalDuration (phases task)
      in StoredTask.extend task
           (Task.fields (startTime task + totalDuration * 60 * 1000) totalDuration))"

section \<open>The stores\<close>

text \<open>
  \<open>GanttDataState\<close> is the state of the data store (store/data-store.ts); the combined
  store of \<open>createGanttStore\<close> holds the same collections together with the UI state, so
  it is the extension \<open>GanttStoreState\<close>. The data actions are written once, on the
  record scheme, as the two sources spell them identically. Of the collections only tasks
  and dependencies are modelled; resources, orders, groups, selection, grouping, hover,
  sidebar and loading state are neither read nor written by the actions below.

  The legacy UI store (store/ui-store.ts) keeps \<open>viewport\<close> and \<open>drag\<close> in a store of
  its own and reads the tasks through \<open>useGanttDataStore.getState()\<close>. Its actions are
  modelled on \<open>GanttStoreState\<close> too, taken as the pair of the two legacy stores; they
  carry the suffix \<open>_ui\<close> where their text differs from the combined store's.
\<close>

record GanttDataState =
  tasks :: "TaskId \<rightharpoonup> Task"
  dependencies :: "DependencyId \<rightharpoonup> TaskDependency"

record GanttStoreState = GanttDataState +
  viewport :: ViewportState
  drag :: "DragState option"
  minResolution :: real

text \<open>What a \<open>commitDrag\<close> can do instead of writing a state of the model. \<open>TypeError\<close>
  is thrown by the source, before anything is written. \<open>NotFinite\<close> is not thrown: the
  source divides by a total duration of zero there and writes phase durations that are
  Infinity or NaN.\<close>

datatype error = TypeError | NotFinite

subsection \<open>Data actions\<close>

definition assign_updates :: "Task \<Rightarrow> TaskUpdates \<Rightarrow> Task" where
  "assign_updates task u =
     task\<lparr> task_id := (case upd_id u of None \<Rightarrow> task_id task | Some v \<Rightarrow> v),
           startTime := (case upd_startTime u of None \<Rightarrow> startTime task | Some v \<Rightarrow> v),
           phases := (case upd_phases u of None \<Rightarrow> phases task | Some v \<Rightarrow> v),
           resourceId := (case upd_resourceId u of None \<Rightarrow> resourceId task | Some v \<Rightarrow> v),
           orderId := (case upd_orderId u of None \<Rightarrow> orderId task | Some v \<Rightarrow> v),
           name := (case upd_name u of None \<Rightarrow> name task | Some v \<Rightarrow> v),
           priority := (case upd_priority u of None \<Rightarrow> priority task | Some v \<Rightarrow> v),
           status := (case upd_status u of None \<Rightarrow> status task | Some v \<Rightarrow> v),
           progress := (case upd_progress u of None \<Rightarrow> progress task | Some v \<Rightarrow> v),
           constraints := (case upd_constraints u of None \<Rightarrow> constraints task | Some v \<Rightarrow> v) \<rparr>"

definition recompute :: "Task \<Rightarrow> Task" where
  "recompute task =
     (let total = calculateTotalDuration (phases task)
      in task\<lparr> u_totalDuration := total, u_endTime := startTime task + total * 60 * 1000 \<rparr>)"

definition apply_updates :: "Task \<Rightarrow> TaskUpdates \<Rightarrow> Task" where
  "apply_updates task u =
     (let task' = assign_updates task u
      in if upd_startTime u \<noteq> None \<or> upd_phases u \<noteq> None then recompute task' else task')"

definition setTasks :: "StoredTask list \<Rightarrow> 'a GanttDataState_scheme \<Rightarrow> 'a GanttDataState_scheme" where
  "setTasks ts s =
     s\<lparr> tasks := foldl (\<lambda>m task. m(task_id task \<mapsto> hydrateTask task)) Map.empty ts \<rparr>"

definition addTask :: "StoredTask \<Rightarrow> 'a GanttDataState_scheme \<Rightarrow> 'a GanttDataState_scheme" where
  "addTask task s = s\<lparr> tasks := (tasks s)(task_id task \<mapsto> hydrateTask task) \<rparr>"

definition updateTask ::
  "TaskId \<Rightarrow> TaskUpdates \<Rightarrow> 'a GanttDataState_scheme \<Rightarrow> 'a GanttDataState_scheme" where
  "updateTask tid u s =
     (case tasks s tid of
        None \<Rightarrow> s
      | Some task \<Rightarrow> s\<lparr> tasks := (tasks s)(tid \<mapsto> apply_updates task u) \<rparr>)"

definition updateTasks ::
  "(TaskId \<times> TaskUpdates) list \<Rightarrow> 'a GanttDataState_scheme \<Rightarrow> 'a GanttDataState_scheme" where
  "updateTasks us s = foldl (\<lambda>st (tid, u). updateTask tid u st) s us"

definition is_fixedTime :: "Task \<Rightarrow> bool" where
  "is_fixedTime task =
     (case constraints task of
        None \<Rightarrow> False
      | Some c \<Rightarrow> (case fixedTime c of None \<Rightarrow> False | Some b \<Rightarrow> b))"

definition move_one ::
  "real \<Rightarrow> ResourceId option \<Rightarrow> 'a GanttDataState_scheme \<Rightarrow> TaskId \<Rightarrow> 'a GanttDataState_scheme" where
  "move_one deltaTime newResourceId s tid =
     (case tasks s tid of
        None \<Rightarrow> s
      | Some task \<Rightarrow>
          if is_fixedTime task then s
          else
            let t1 = task\<lparr> startTime := startTime task + deltaTime \<rparr>;
                t2 = t1\<lparr> u_endTime := startTime t1 + u_totalDuration t1 * 60 * 1000 \<rparr>;
                t3 = (case newResourceId of None \<Rightarrow> t2 | Some r \<Rightarrow> t2\<lparr> resourceId := r \<rparr>)
            in s\<lparr> tasks := (tasks s)(tid \<mapsto> t3) \<rparr>)"

definition moveTasks ::
  "TaskId list \<Rightarrow> real \<Rightarrow> ResourceId option \<Rightarrow> 'a GanttDataState_scheme \<Rightarrow> 'a GanttDataState_scheme" where
  "moveTasks taskIds deltaTime newResourceId s = foldl (move_one deltaTime newResourceId) s taskIds"

definition deleteTask :: "TaskId \<Rightarrow> 'a GanttDataState_scheme \<Rightarrow> 'a GanttDataState_scheme" where
  "deleteTask tid s =
     s\<lparr> tasks := (tasks s)(tid := None),
        dependencies := (\<lambda>k. case dependencies s k of
                                None \<Rightarrow> None
                              | Some dep \<Rightarrow> if predecessorId dep = tid \<or> successorId dep = tid
                                           then None else Some dep) \<rparr>"

subsection \<open>Viewport actions (identical in the combined store and the legacy UI store)\<close>

definition getZoomLevel :: "real \<Rightarrow> ZoomLevel" where
  "getZoomLevel pph =
     (if pph \<ge> 30 then hour else if pph \<ge> 5 then day else if pph \<ge> 1 then week else month)"

definition panViewport :: "real \<Rightarrow> real \<Rightarrow> GanttStoreState \<Rightarrow> GanttStoreState" where
  "panViewport deltaX deltaY state =
     state\<lparr> viewport := (viewport state)
       \<lparr> scrollX := max 0 (scrollX (viewport state) + deltaX),
         scrollY := max 0 (scrollY (viewport state) + deltaY) \<rparr> \<rparr>"

definition zoomViewport :: "real \<Rightarrow> real \<Rightarrow> GanttStoreState \<Rightarrow> GanttStoreState" where
  "zoomViewport factor centerX state =
     (let oldPixelsPerHour = pixelsPerHour (viewport state);
          newPixelsPerHour = max 0.25 (min 120 (oldPixelsPerHour * factor));
          scrollXOffset = centerX + scrollX (viewport state);
          timeOffset = scrollXOffset / oldPixelsPerHour;
          newScrollX = timeOffset * newPixelsPerHour - centerX
      in state\<lparr> viewport := (viewport state)
           \<lparr> pixelsPerHour := newPixelsPerHour,
             scrollX := max 0 newScrollX,
             zoomLevel := getZoomLevel newPixelsPerHour \<rparr> \<rparr>)"

subsection \<open>Viewport transform (engine/viewport-manager.ts)\<close>

definition MS_PER_HOUR :: real where
  "MS_PER_HOUR = 60 * 60 * 1000"

definition timeToX :: "ViewportState \<Rightarrow> real \<Rightarrow> real" where
  "timeToX vp timestamp =
     (let hoursFromOrigin = (timestamp - timeOrigin vp) / MS_PER_HOUR
      in hoursFromOrigin * pixelsPerHour vp - scrollX vp)"

definition xToTime :: "ViewportState \<Rightarrow> real \<Rightarrow> real" where
  "xToTime vp x =
     (let hoursFromOrigin = (x + scrollX vp) / pixelsPerHour vp
      in timeOrigin vp + hoursFromOrigin * MS_PER_HOUR)"

subsection \<open>Drag actions\<close>

definition ZOOM_SNAP_INTERVALS :: "ZoomLevel \<Rightarrow> real" where
  "ZOOM_SNAP_INTERVALS z = (case z of hour \<Rightarrow> 15 | day \<Rightarrow> 60 | week \<Rightarrow> 360 | month \<Rightarrow> 1440)"

definition getSnapIntervalMs :: "ZoomLevel \<Rightarrow> real \<Rightarrow> real" where
  "getSnapIntervalMs z minRes =
     (let zoomSnapMinutes = ZOOM_SNAP_INTERVALS z;
          effectiveSnapMinutes = max zoomSnapMinutes minRes
      in effectiveSnapMinutes * 60 * 1000)"

text \<open>\<open>startDrag\<close> returns early, leaving the state as it is, when the task is missing or
  its \<open>constraints?.fixedTime\<close> is truthy. The combined store reads \<open>state.tasks\<close>, the
  legacy UI store reads the tasks of the data store: the same field of the model.\<close>

definition startDrag ::
  "TaskId \<Rightarrow> DragType \<Rightarrow> real \<Rightarrow> real \<Rightarrow> GanttStoreState \<Rightarrow> GanttStoreState" where
  "startDrag tid ty sx sy state =
     (case tasks state tid of
        None \<Rightarrow> state
      | Some task \<Rightarrow>
          if is_fixedTime task then state
          else state\<lparr> drag := Some
                 \<lparr> drag_type = ty, taskId = tid, originalTask = task,
                   previewStartTime = startTime task, previewEndTime = u_endTime task,
                   previewResourceId = resourceId task,
                   collisions = [], dependencyViolations = [],
                   startX = sx, startY = sy, currentX = sx, currentY = sy \<rparr> \<rparr>)"

text \<open>The preview of a pointer move. \<open>minDurationMs\<close> is \<open>minResolution\<close> minutes in the
  combined store and the constant 15 minutes in the legacy UI store.\<close>

definition update_preview :: "real \<Rightarrow> real \<Rightarrow> real \<Rightarrow> real \<Rightarrow> DragState \<Rightarrow> DragState" where
  "update_preview minDurationMs pph cx cy d =
     (let deltaX = cx - startX d;
          hoursPerPixel = 1 / pph;
          deltaTimeMs = deltaX * hoursPerPixel * 60 * 60 * 1000;
          d1 = d\<lparr> currentX := cx, currentY := cy \<rparr>
      in if drag_type d1 = move \<or> drag_type d1 = reassign then
           d1\<lparr> previewStartTime := startTime (originalTask d1) + deltaTimeMs,
               previewEndTime := u_endTime (originalTask d1) + deltaTimeMs \<rparr>
         else if drag_type d1 = resize_start then
           d1\<lparr> previewStartTime :=
                 min (startTime (originalTask d1) + deltaTimeMs)
                     (u_endTime (originalTask d1) - minDurationMs) \<rparr>
         else if drag_type d1 = resize_end then
           d1\<lparr> previewEndTime :=
                 max (u_endTime (originalTask d1) + deltaTimeMs)
                     (startTime (originalTask d1) + minDurationMs) \<rparr>
         else d1)"

definition updateDrag :: "real \<Rightarrow> real \<Rightarrow> GanttStoreState \<Rightarrow> GanttStoreState" where
  "updateDrag cx cy state =
     (case drag state of
        None \<Rightarrow> state
      | Some d \<Rightarrow>
          state\<lparr> drag := Some (update_preview (minResolution state * 60 * 1000)
                                  (pixelsPerHour (viewport state)) cx cy d) \<rparr>)"

definition updateDrag_ui :: "real \<Rightarrow> real \<Rightarrow> GanttStoreState \<Rightarrow> GanttStoreState" where
  "updateDrag_ui cx cy state =
     (case drag state of
        None \<Rightarrow> state
      | Some d \<Rightarrow>
          state\<lparr> drag := Some (update_preview (15 * 60 * 1000)
                                  (pixelsPerHour (viewport state)) cx cy d) \<rparr>)"

text \<open>The phases of a resize: every duration times the scale factor, rounded.\<close>

definition scale_phases :: "real \<Rightarrow> TaskPhase list \<Rightarrow> TaskPhase list" where
  "scale_phases scaleFactor ps =
     map (\<lambda>phase. phase\<lparr> duration := of_int (round (duration phase * scaleFactor)) \<rparr>) ps"

text \<open>The body shared by the two \<open>commitDrag\<close>: the update written to the store from the
  start and end time to commit. In the resize branch \<open>originalTask\<close> is the task read from
  the store; when it is missing, reading \<open>originalTask._totalDuration\<close> throws. When its
  \<open>_totalDuration\<close> is zero, \<open>scaleFactor\<close> is a quotient by zero, Infinity or NaN, and so
  is every product \<open>phase.duration * scaleFactor\<close> and its rounding: with at least one
  phase the source writes durations that are not finite (\<open>NotFinite\<close>); with no phase
  nothing is scaled and the scale factor does not matter.\<close>

definition commit_times :: "DragState \<Rightarrow> real \<Rightarrow> real \<Rightarrow> GanttStoreState \<Rightarrow> error + GanttStoreState" where
  "commit_times d start end state =
     (let originalTask = tasks state (taskId d)
      in if drag_type d = move \<or> drag_type d = reassign then
           Inr ((updateTask (taskId d)
                   (no_updates\<lparr> upd_startTime := Some start,
                                upd_resourceId := Some (previewResourceId d) \<rparr>) state)
                \<lparr> drag := None \<rparr>)
         else
           (case originalTask of
              None \<Rightarrow> Inl TypeError
            | Some ot \<Rightarrow>
                if u_totalDuration ot = 0 \<and> phases ot \<noteq> [] then Inl NotFinite
                else
                  let newDurationMs = end - start;
                      newDurationMinutes = newDurationMs / (60 * 1000);
                      scaleFactor = newDurationMinutes / u_totalDuration ot;
                      newPhases = scale_phases scaleFactor (phases ot)
                  in Inr ((updateTask (taskId d)
                             (no_updates\<lparr> upd_startTime := Some start,
                                          upd_phases := Some newPhases \<rparr>) state)
                          \<lparr> drag := None \<rparr>)))"

text \<open>\<open>commitDrag\<close> of the combined store snaps the preview times to the snap interval
  before committing.\<close>

definition commitDrag :: "GanttStoreState \<Rightarrow> error + GanttStoreState" where
  "commitDrag state =
     (case drag state of
        None \<Rightarrow> Inr state
      | Some d \<Rightarrow>
          if dependencyViolations d \<noteq> [] then Inr (state\<lparr> drag := None \<rparr>)
          else
            let snapInterval = getSnapIntervalMs (zoomLevel (viewport state)) (minResolution state);
                snappedStartTime = of_int (round (previewStartTime d / snapInterval)) * snapInterval;
                snappedEndTime = of_int (round (previewEndTime d / snapInterval)) * snapInterval
            in commit_times d snappedStartTime snappedEndTime state)"

text \<open>\<open>commitDrag\<close> of the legacy UI store commits the preview times as they are.\<close>

definition commitDrag_ui :: "GanttStoreState \<Rightarrow> error + GanttStoreState" where
  "commitDrag_ui state =
     (case drag state of
        None \<Rightarrow> Inr state
      | Some d \<Rightarrow>
          if dependencyViolations d \<noteq> [] then Inr (state\<lparr> drag := None \<rparr>)
          else commit_times d (previewStartTime d) (previewEndTime d) state)"

definition cancelDrag :: "GanttStoreState \<Rightarrow> GanttStoreState" where
  "cancelDrag state = state\<lparr> drag := None \<rparr>"

subsection \<open>What a commit leaves of a task\<close>

text \<open>The task stored under an id after a \<open>commitDrag\<close>; none when the commit threw.\<close>

definition committed_task :: "TaskId \<Rightarrow> error + GanttStoreState \<Rightarrow> Task option" where
  "committed_task tid r = (case r of Inl e \<Rightarrow> None | Inr s' \<Rightarrow> tasks s' tid)"

text \<open>The commit left \<open>startTime\<close>, \<open>phases\<close> and \<open>resourceId\<close> of the task as they were.\<close>

definition commit_keeps :: "TaskId \<Rightarrow> Task \<Rightarrow> error + GanttStoreState \<Rightarrow> bool" where
  "commit_keeps tid t r \<longleftrightarrow>
     (case committed_task tid r of
        None \<Rightarrow> False
      | Some t' \<Rightarrow> startTime t' = startTime t \<and> phases t' = phases t \<and> resourceId t' = resourceId t)"

text \<open>A time is on the snap grid when it is a whole multiple of the snap interval.\<close>

definition on_grid :: "real \<Rightarrow> real \<Rightarrow> bool" where
  "on_grid interval x \<longleftrightarrow> (\<exists>k::int. x = of_int k * interval)"

text \<open>The drag state that \<open>startDrag\<close> creates for a task.\<close>

definition fresh_drag :: "TaskId \<Rightarrow> DragType \<Rightarrow> real \<Rightarrow> real \<Rightarrow> Task \<Rightarrow> DragState" where
  "fresh_drag tid ty x y t =
     \<lparr> drag_type = ty, taskId = tid, originalTask = t,
       previewStartTime = startTime t, previewEndTime = u_endTime t,
       previewResourceId = resourceId t,
       collisions = [], dependencyViolations = [],
       startX = x, startY = y, currentX = x, currentY = y \<rparr>"

text \<open>The span of the preview of a drag, in milliseconds, and the phase durations of a
  task, in minutes.\<close>

definition preview_span :: "DragState \<Rightarrow> real" where
  "preview_span d = previewEndTime d - previewStartTime d"

definition phase_durations :: "Task \<Rightarrow> real list" where
  "phase_durations t = map duration (phases t)"

subsection \<open>Initial state and runs of actions\<close>

text \<open>\<open>createInitialState\<close>; the argument stands for \<open>Date.now()\<close>.\<close>

definition createInitialState :: "real \<Rightarrow> GanttStoreState" where
  "createInitialState now =
     \<lparr> tasks = Map.empty, dependencies = Map.empty,
       viewport = \<lparr> scrollX = 0, timeOrigin = now - 24 * 60 * 60 * 1000, pixelsPerHour = 10,
                    scrollY = 0, rowHeight = 40, width = 0, height = 0, zoomLevel = day \<rparr>,
       drag = None, minResolution = 30 \<rparr>"

datatype action =
    SetTasks "StoredTask list"
  | AddTask StoredTask
  | UpdateTask TaskId TaskUpdates
  | UpdateTasks "(TaskId \<times> TaskUpdates) list"
  | MoveTasks "TaskId list" real "ResourceId option"
  | DeleteTask TaskId
  | PanViewport real real
  | ZoomViewport real real
  | StartDrag TaskId DragType real real
  | UpdateDrag real real
  | UpdateDragUi real real
  | CommitDrag
  | CommitDragUi
  | CancelDrag

text \<open>
  One call of an action; \<open>None\<close> where the source divides by zero, so that what it
  computes is Infinity or NaN and not what the model computes: \<open>zoomViewport\<close> and, with
  a drag in progress, \<open>updateDrag\<close> at \<open>pixelsPerHour = 0\<close>, and a \<open>commitDrag\<close> that
  is \<open>NotFinite\<close>. A \<open>commitDrag\<close> that throws has written nothing.
\<close>

fun step :: "GanttStoreState \<Rightarrow> action \<Rightarrow> GanttStoreState option" where
  "step s (SetTasks ts) = Some (setTasks ts s)"
| "step s (AddTask t) = Some (addTask t s)"
| "step s (UpdateTask tid u) = Some (updateTask tid u s)"
| "step s (UpdateTasks us) = Some (updateTasks us s)"
| "step s (MoveTasks ids deltaTime r) = Some (moveTasks ids deltaTime r s)"
| "step s (DeleteTask tid) = Some (deleteTask tid s)"
| "step s (PanViewport dx dy) = Some (panViewport dx dy s)"
| "step s (ZoomViewport f c) =
     (if pixelsPerHour (viewport s) = 0 then None else Some (zoomViewport f c s))"
| "step s (StartDrag tid ty x y) = Some (startDrag tid ty x y s)"
| "step s (UpdateDrag x y) =
     (if drag s \<noteq> None \<and> pixelsPerHour (viewport s) = 0 then None
      else Some (updateDrag x y s))"
| "step s (UpdateDragUi x y) =
     (if drag s \<noteq> None \<and> pixelsPerHour (viewport s) = 0 then None
      else Some (updateDrag_ui x y s))"
| "step s CommitDrag =
     (case commitDrag s of Inl TypeError \<Rightarrow> Some s | Inl NotFinite \<Rightarrow> None | Inr s' \<Rightarrow> Some s')"
| "step s CommitDragUi =
     (case commitDrag_ui s of Inl TypeError \<Rightarrow> Some s | Inl NotFinite \<Rightarrow> None | Inr s' \<Rightarrow> Some s')"
| "step s CancelDrag = Some (cancelDrag s)"

fun run :: "action list \<Rightarrow> GanttStoreState \<Rightarrow> GanttStoreState option" where
  "run [] s = Some s"
| "run (a # acts) s = (case step s a of None \<Rightarrow> None | Some s' \<Rightarrow> run acts s')"

text \<open>The task under an id after a run.\<close>

definition run_task :: "action list \<Rightarrow> GanttStoreState \<Rightarrow> TaskId \<Rightarrow> Task option" where
  "run_task acts s tid = (case run acts s of None \<Rightarrow> None | Some s' \<Rightarrow> tasks s' tid)"

text \<open>The derived fields of a task are current.\<close>

definition task_ok :: "Task \<Rightarrow> bool" where
  "task_ok t \<longleftrightarrow>
     u_totalDuration t = sum_list (map duration (phases t)) \<and>
     u_endTime t = startTime t + u_totalDuration t * 60000"

definition store_inv :: "'a GanttDataState_scheme \<Rightarrow> bool" where
  "store_inv s \<longleftrightarrow> (\<forall>tid t. tasks s tid = Some t \<longrightarrow> task_ok t)"

section \<open>Undo history\<close>

text \<open>
  Modelled from the spec: the bounded undo history. data-store.ts wraps its store in the
  \<open>temporal\<close> middleware of the zundo package, which is not among the sources; only the
  options passed to it are (\<open>limit: 50\<close> and \<open>equality\<close>). Following the spec, the
  history is a list of committed snapshots of the task and dependency collections (the
  whole of \<open>GanttDataState\<close> here), oldest first, of at most \<open>limit\<close> entries; a store
  update pushes the state it started from only when \<open>equality\<close> finds the tracked
  collections changed, and clears the redo list; \<open>undo\<close> puts the newest snapshot back
  and does nothing on an empty history.

  \<open>equality\<close> is the option of the source. It compares the two collections with \<open>===\<close>;
  the store is updated through immer, which keeps a collection object when a recipe
  changes no value in it, so the model compares the values.
\<close>

record 's TemporalState =
  present :: 's
  pastStates :: "'s list"
  futureStates :: "'s list"

definition history_limit :: nat where
  "history_limit = 50"

definition equality :: "GanttDataState \<Rightarrow> GanttDataState \<Rightarrow> bool" where
  "equality pastState currentState \<longleftrightarrow>
     tasks pastState = tasks currentState \<and>
     dependencies pastState = dependencies currentState"

definition temporal_set ::
  "(GanttDataState \<Rightarrow> GanttDataState) \<Rightarrow> GanttDataState TemporalState \<Rightarrow> GanttDataState TemporalState" where
  "temporal_set f h =
     (let pastState = present h;
          currentState = f pastState
      in if equality pastState currentState then h\<lparr> present := currentState \<rparr>
         else h\<lparr> present := currentState,
                 pastStates := (if length (pastStates h) \<ge> history_limit
                                then tl (pastStates h) else pastStates h) @ [pastState],
                 futureStates := [] \<rparr>)"

definition undo :: "'s TemporalState \<Rightarrow> 's TemporalState" where
  "undo h =
     (if pastStates h = [] then h
      else h\<lparr> present := last (pastStates h),
              pastStates := butlast (pastStates h),
              futureStates := futureStates h @ [present h] \<rparr>)"

definition redo :: "'s TemporalState \<Rightarrow> 's TemporalState" where
  "redo h =
     (if futureStates h = [] then h
      else h\<lparr> present := last (futureStates h),
              pastStates := pastStates h @ [present h],
              futureStates := butlast (futureStates h) \<rparr>)"

section \<open>Spatial index (indexes/spatial-index.ts)\<close>

record BBox =
  minX :: real
  minY :: real
  maxX :: real
  maxY :: real

record RBushItem = BBox +
  item_taskId :: TaskId

record SpatialIndex =
  tree :: "RBushItem list"
  taskBoundsMap :: "TaskId \<rightharpoonup> RBushItem"

text \<open>
  Modelled from the spec: the R-tree of the rbush package, which spatial-index.ts imports
  and which is not among the sources. The tree is taken as the collection of the items
  loaded into it, and a search returns those items whose box shares a point with the query
  box, boundary included: the spec has \<open>queryPoint\<close> return the ids whose box contains the
  point and \<open>queryRect\<close> the tasks intersecting the rectangle. The order of the result is
  the order of loading here; the claims about queries speak of membership only.
\<close>

definition intersects :: "'a BBox_scheme \<Rightarrow> 'b BBox_scheme \<Rightarrow> bool" where
  "intersects a b \<longleftrightarrow> minX b \<le> maxX a \<and> minY b \<le> maxY a \<and> maxX b \<ge> minX a \<and> maxY b \<ge> minY a"

definition rbush_load :: "RBushItem list \<Rightarrow> RBushItem list \<Rightarrow> RBushItem list" where
  "rbush_load items tr = tr @ items"

definition rbush_search :: "RBushItem list \<Rightarrow> BBox \<Rightarrow> RBushItem list" where
  "rbush_search tr bbox = filter (\<lambda>item. intersects bbox item) tr"

text \<open>The \<open>rowByResource\<close> map of \<open>rebuild\<close>: rows whose \<open>resourceId\<close> is null or the
  empty string are skipped, and a later row replaces an earlier one of the same resource.\<close>

definition rowByResource :: "VirtualRow list \<Rightarrow> (ResourceId \<rightharpoonup> VirtualRow)" where
  "rowByResource virtualRows =
     foldl (\<lambda>m row. case row_resourceId row of
                       None \<Rightarrow> m
                     | Some r \<Rightarrow> if r = [] then m else m(r \<mapsto> row))
           Map.empty virtualRows"

definition task_bounds :: "Task \<Rightarrow> VirtualRow \<Rightarrow> RBushItem" where
  "task_bounds task row =
     \<lparr> minX = startTime task, minY = virtualY row,
       maxX = u_endTime task, maxY = virtualY row + row_height row,
       item_taskId = task_id task \<rparr>"

text \<open>\<open>rebuild\<close> clears the tree and the bounds map first, so the index it leaves depends
  on its arguments only.\<close>

definition rebuild :: "Task list \<Rightarrow> VirtualRow list \<Rightarrow> SpatialIndex" where
  "rebuild ts virtualRows =
     (let byResource = rowByResource virtualRows;
          items = concat (map (\<lambda>task. case byResource (resourceId task) of
                                         None \<Rightarrow> []
                                       | Some row \<Rightarrow> [task_bounds task row]) ts)
      in \<lparr> tree = rbush_load items [],
           taskBoundsMap = foldl (\<lambda>m b. m(item_taskId b \<mapsto> b)) Map.empty items \<rparr>)"

definition queryPoint :: "SpatialIndex \<Rightarrow> real \<Rightarrow> real \<Rightarrow> TaskId list" where
  "queryPoint idx timestamp vy =
     map item_taskId
       (rbush_search (tree idx) \<lparr> minX = timestamp, minY = vy, maxX = timestamp, maxY = vy \<rparr>)"

section \<open>Relational index (indexes/index-manager.ts)\<close>

text \<open>
  The two adjacency maps of the dependency graph. A \<open>Map<TaskId, Set<TaskId>>\<close> is finite
  and keeps insertion order: an association list, read with \<^const>\<open>map_of\<close>.
\<close>

datatype Direction = predecessors | successors | both

record IndexManager =
  predecessorIndex :: "(TaskId \<times> TaskId list) list"
  successorIndex :: "(TaskId \<times> TaskId list) list"

definition getPredecessors :: "IndexManager \<Rightarrow> TaskId \<Rightarrow> TaskId list" where
  "getPredecessors im tid =
     (case map_of (predecessorIndex im) tid of None \<Rightarrow> [] | Some ps \<Rightarrow> ps)"

definition getSuccessors :: "IndexManager \<Rightarrow> TaskId \<Rightarrow> TaskId list" where
  "getSuccessors im tid =
     (case map_of (successorIndex im) tid of None \<Rightarrow> [] | Some ss \<Rightarrow> ss)"

text \<open>What one iteration of the loop of \<open>getDependencyChain\<close> appends to the queue: the
  predecessors, then the successors, of \<open>current\<close> that are not visited, as the direction
  asks. \<open>visited\<close> already holds \<open>current\<close> at that point.\<close>

definition pushes :: "IndexManager \<Rightarrow> Direction \<Rightarrow> TaskId list \<Rightarrow> TaskId \<Rightarrow> TaskId list" where
  "pushes im direction visited current =
     (if direction = predecessors \<or> direction = both
      then filter (\<lambda>pred. pred \<notin> set visited) (getPredecessors im current) else []) @
     (if direction = successors \<or> direction = both
      then filter (\<lambda>succ. succ \<notin> set visited) (getSuccessors im current) else [])"

text \<open>Every id stored as a neighbour in one of the two maps.\<close>

definition index_ids :: "IndexManager \<Rightarrow> TaskId set" where
  "index_ids im = \<Union> (set (map (set \<circ> snd) (predecessorIndex im @ successorIndex im)))"

text \<open>The \<open>while (queue.length > 0)\<close> loop: \<open>visited\<close> is the set in insertion order, the
  queue a list taken from the front. It terminates because an iteration either visits a new
  id, of the finitely many that the queue and the maps hold, or shortens the queue.\<close>

function chain_loop ::
  "IndexManager \<Rightarrow> Direction \<Rightarrow> TaskId list \<Rightarrow> TaskId list \<Rightarrow> TaskId list" where
  "chain_loop im direction visited [] = visited"
| "chain_loop im direction visited (current # queue) =
     (if current \<in> set visited then chain_loop im direction visited queue
      else chain_loop im direction (visited @ [current])
             (queue @ pushes im direction (visited @ [current]) current))"
  by pat_completeness auto
termination
proof (relation "inv_image (less_than <*lex*> less_than)
         (\<lambda>(im, direction, visited, queue).
            (card ((index_ids im \<union> set queue) - set visited), length queue))")
  show "wf (inv_image (less_than <*lex*> less_than)
         (\<lambda>(im, direction, visited, queue).
            (card ((index_ids im \<union> set queue) - set visited), length queue)))"
    by (intro wf_inv_image wf_lex_prod wf_less_than)
next
  fix im :: IndexManager and direction :: Direction
    and visited queue :: "TaskId list" and current :: TaskId
  assume "current \<in> set visited"
  then have "(index_ids im \<union> set queue) - set visited
             = (index_ids im \<union> set (current # queue)) - set visited"
    by auto
  then show "((im, direction, visited, queue), (im, direction, visited, current # queue))
        \<in> inv_image (less_than <*lex*> less_than)
         (\<lambda>(im, direction, visited, queue).
            (card ((index_ids im \<union> set queue) - set visited), length queue))"
    by simp
next
  fix im :: IndexManager and direction :: Direction
    and visited queue :: "TaskId list" and current :: TaskId
  assume nv: "current \<notin> set visited"
  let ?visited = "visited @ [current]"
  let ?queue = "queue @ pushes im direction ?visited current"
  have fin: "finite (index_ids im)" by (simp add: index_ids_def)
  have preds: "set (getPredecessors im current) \<subseteq> index_ids im"
  proof (cases "map_of (predecessorIndex im) current")
    case None
    then show ?thesis by (simp add: getPredecessors_def)
  next
    case (Some ps)
    then have "(current, ps) \<in> set (predecessorIndex im)" by (rule map_of_SomeD)
    then show ?thesis by (force simp: getPredecessors_def index_ids_def Some)
  qed
  have succs: "set (getSuccessors im current) \<subseteq> index_ids im"
  proof (cases "map_of (successorIndex im) current")
    case None
    then show ?thesis by (simp add: getSuccessors_def)
  next
    case (Some ss)
    then have "(current, ss) \<in> set (successorIndex im)" by (rule map_of_SomeD)
    then show ?thesis by (force simp: getSuccessors_def index_ids_def Some)
  qed
  have sub: "set (pushes im direction ?visited current) \<subseteq> index_ids im"
    using preds succs by (auto simp: pushes_def)
  have "(index_ids im \<union> set ?queue) - set ?visited
        \<subset> (index_ids im \<union> set (current # queue)) - set visited"
    using nv sub by auto
  then have "card ((index_ids im \<union> set ?queue) - set ?visited)
        < card ((index_ids im \<union> set (current # queue)) - set visited)"
    using fin by (intro psubset_card_mono) auto
  then show "((im, direction, ?visited, ?queue), (im, direction, visited, current # queue))
        \<in> inv_image (less_than <*lex*> less_than)
         (\<lambda>(im, direction, visited, queue).
            (card ((index_ids im \<union> set queue) - set visited), length queue))"
    by simp
qed

text \<open>\<open>visited.delete(taskId)\<close>, then \<open>Array.from(visited)\<close>.\<close>

definition getDependencyChain :: "IndexManager \<Rightarrow> TaskId \<Rightarrow> Direction \<Rightarrow> TaskId list" where
  "getDependencyChain im tid direction =
     filter (\<lambda>v. v \<noteq> tid) (chain_loop im direction [] [tid])"

text \<open>The edges of the adjacency graph in a direction, read off the two maps: from an id
  to every id in the set that \<open>predecessorIndex\<close> holds for it (directions
  \<open>predecessors\<close> and \<open>both\<close>) and to every id in the set that \<open>successorIndex\<close> holds
  for it (directions \<open>successors\<close> and \<open>both\<close>).\<close>

definition chain_edges :: "IndexManager \<Rightarrow> Direction \<Rightarrow> (TaskId \<times> TaskId) set" where
  "chain_edges im direction =
     {(a, b). ((direction = predecessors \<or> direction = both) \<and>
               (\<exists>ps. map_of (predecessorIndex im) a = Some ps \<and> b \<in> set ps)) \<or>
              ((direction = successors \<or> direction = both) \<and>
               (\<exists>ss. map_of (successorIndex im) a = Some ss \<and> b \<in> set ss))}"

section \<open>Example values\<close>

definition ex_viewport :: ViewportState where
  "ex_viewport = \<lparr> scrollX = 0, timeOrigin = 0, pixelsPerHour = 10, scrollY = 0,
     rowHeight = 40, width = 800, height = 600, zoomLevel = day \<rparr>"

definition ex_store :: GanttStoreState where
  "ex_store = \<lparr> tasks = Map.empty, dependencies = Map.empty, viewport = ex_viewport,
     drag = None, minResolution = 30 \<rparr>"

definition ex_phases :: "TaskPhase list" where
  "ex_phases =
     [\<lparr> phase_type = phase_setup, duration = 20, phase_color = None \<rparr>,
      \<lparr> phase_type = phase_execution, duration = 100, phase_color = None \<rparr>,
      \<lparr> phase_type = phase_cleanup, duration = 20, phase_color = None \<rparr>]"

definition ex_task :: "TaskId \<Rightarrow> real \<Rightarrow> Constraints option \<Rightarrow> StoredTask" where
  "ex_task tid start cs =
     \<lparr> task_id = tid, startTime = start, phases = ex_phases, resourceId = ''r1'',
       orderId = ''o1'', name = ''task'', priority = 1, status = scheduled, progress = 0,
       constraints = cs \<rparr>"

definition ex_fixed :: Constraints where
  "ex_fixed = \<lparr> earliestStart = None, latestEnd = None, fixedTime = Some True \<rparr>"

definition ex_store_fixed :: GanttStoreState where
  "ex_store_fixed = addTask (ex_task ''t2'' 0 (Some ex_fixed)) (addTask (ex_task ''t1'' 0 None) ex_store)"

definition ex_acts :: "action list" where
  "ex_acts =
     [AddTask (ex_task ''t1'' 0 None), MoveTasks [''t1''] 3600000 None,
      StartDrag ''t1'' resize_end 100 0, UpdateDrag 40 0, CommitDrag]"


definition ex_row :: VirtualRow where
  "ex_row = \<lparr> row_id = ''row1'', row_resourceId = Some ''r1'', virtualY = 32,
     row_height = 40, isGroupHeader = False \<rparr>"

definition ex_rows :: "VirtualRow list" where
  "ex_rows =
     [\<lparr> row_id = ''header'', row_resourceId = None, virtualY = 0, row_height = 32,
        isGroupHeader = True \<rparr>,
      ex_row]"

definition ex_tasks :: "Task list" where
  "ex_tasks = [hydrateTask (ex_task ''t1'' 0 None), hydrateTask (ex_task ''t2'' 9000000 None)]"

definition ex_offgrid :: GanttStoreState where
  "ex_offgrid = addTask (ex_task ''t1'' 600000 None) ex_store"

definition ex_store_hour :: GanttStoreState where
  "ex_store_hour =
     addTask (ex_task ''t1'' 0 None)
       (ex_store\<lparr> viewport := ex_viewport\<lparr> pixelsPerHour := 60, zoomLevel := hour \<rparr> \<rparr>)"

definition ex_store35 :: GanttStoreState where
  "ex_store35 = ex_store_hour\<lparr> minResolution := 35 \<rparr>"

definition ex_resized :: GanttStoreState where
  "ex_resized = updateDrag 30 0 (startDrag ''t1'' resize_end 100 0 ex_store_hour)"

definition ex_resized35 :: GanttStoreState where
  "ex_resized35 = updateDrag 30 0 (startDrag ''t1'' resize_end 100 0 ex_store35)"

definition ex_hydrated_offgrid :: Task where
  "ex_hydrated_offgrid = hydrateTask (ex_task ''t1'' 600000 None)"

definition ex_short :: GanttStoreState where
  "ex_short =
     addTask ((ex_task ''t1'' 3600000 None)
                \<lparr> phases := [\<lparr> phase_type = phase_execution, duration = 10,
                                phase_color = None \<rparr>] \<rparr>)
       ex_store"

definition ex_half :: GanttStoreState where
  "ex_half =
     addTask ((ex_task ''t1'' 3600000 None)
                \<lparr> phases := [\<lparr> phase_type = phase_execution, duration = 21 / 2,
                                phase_color = None \<rparr>] \<rparr>)
       ex_store"

definition ex_hydrated :: Task where
  "ex_hydrated = hydrateTask (ex_task ''t1'' 0 None)"

definition ex_history :: "GanttDataState TemporalState" where
  "ex_history =
     \<lparr> present = addTask (ex_task ''t1'' 0 None) \<lparr> tasks = Map.empty, dependencies = Map.empty \<rparr>,
       pastStates = [], futureStates = [] \<rparr>"

definition ex_full :: "GanttDataState TemporalState" where
  "ex_full = ex_history\<lparr> pastStates := replicate 50 (present ex_history) \<rparr>"

definition ex_moved :: "GanttDataState TemporalState" where
  "ex_moved =
     temporal_set (moveTasks [''t1''] (-250) None)
       (temporal_set (moveTasks [''t1'', ''t9''] 1000 (Some ''r2''))
         (temporal_set (moveTasks [''t1''] 5000 None) ex_history))"

text \<open>Unfolding rules for evaluating the actions on the example values.\<close>

lemmas ex_eval =
  addTask_def ex_task_def ex_store_def ex_viewport_def ex_phases_def hydrateTask_def Let_def
  StoredTask.extend_def Task.defs StoredTask.defs calculateTotalDuration_def is_fixedTime_def
  startDrag_def updateDrag_def updateDrag_ui_def update_preview_def
  commitDrag_def commitDrag_ui_def commit_times_def getSnapIntervalMs_def
  ZOOM_SNAP_INTERVALS_def updateTask_def apply_updates_def assign_updates_def recompute_def
  no_updates_def scale_phases_def committed_task_def

section \<open>Viewport\<close>

text \<open>
  Claim C7. For a viewport whose \<open>pixelsPerHour\<close> lies within the zoom bounds
  \<open>[0.25, 120]\<close> and every timestamp \<open>t\<close>, \<open>xToTime (timeToX t)\<close> is \<open>t\<close>. In the exact
  arithmetic of the model the round trip is an equality; the tolerance of the claim is the
  rounding of the floating-point operations, which the model does not have.
\<close>

theorem xToTime_timeToX:
  assumes "0.25 \<le> pixelsPerHour vp" and "pixelsPerHour vp \<le> 120"
  shows "xToTime vp (timeToX vp t) = t"
proof -
  have "pixelsPerHour vp \<noteq> 0" using assms(1) by auto
  then show ?thesis
    by (simp add: xToTime_def timeToX_def MS_PER_HOUR_def Let_def field_simps)
qed

theorem xToTime_timeToX_witness:
  "0.25 \<le> pixelsPerHour ex_viewport \<and> pixelsPerHour ex_viewport \<le> 120 \<and>
   xToTime ex_viewport (timeToX ex_viewport 1234567) = 1234567"
proof -
  have a: "0.25 \<le> pixelsPerHour ex_viewport" and b: "pixelsPerHour ex_viewport \<le> 120"
    by (simp_all add: ex_viewport_def)
  show ?thesis using a b xToTime_timeToX [OF a b, of 1234567] by simp
qed

text \<open>
  Claim C3, as stated, fails: \<open>zoomViewport\<close> clamps the new horizontal scroll at zero, and
  when it does the time under the anchor moves. Zooming out by one half around pixel 100
  from scroll 0 at 10 pixels per hour asks for scroll \<open>-50\<close>; the scroll stays 0 and pixel
  100 shows hour 20 instead of hour 10.
\<close>

theorem zoomViewport_anchor_counterexample:
  "xToTime (viewport (zoomViewport (1/2) 100 ex_store)) 100 \<noteq> xToTime (viewport ex_store) 100"
  by (simp add: zoomViewport_def Let_def xToTime_def MS_PER_HOUR_def ex_store_def ex_viewport_def)

text \<open>
  Claim C3, amended. For every zoom factor and anchor pixel \<open>centerX\<close>, \<open>zoomViewport\<close>
  leaves \<open>pixelsPerHour\<close> within \<open>[0.25, 120]\<close>; and, the old \<open>pixelsPerHour\<close> being
  nonzero, the time that \<open>xToTime\<close> gives for \<open>centerX\<close> is the same before and after the
  zoom exactly when the recomputed scroll offset
  \<open>(centerX + scrollX) / oldPixelsPerHour * newPixelsPerHour - centerX\<close> is not negative,
  that is, when the clamp of \<open>scrollX\<close> at zero does not change it.
\<close>

theorem zoomViewport_anchor:
  assumes "pixelsPerHour (viewport s) \<noteq> 0"
  shows "0.25 \<le> pixelsPerHour (viewport (zoomViewport f c s)) \<and>
         pixelsPerHour (viewport (zoomViewport f c s)) \<le> 120 \<and>
         (xToTime (viewport (zoomViewport f c s)) c = xToTime (viewport s) c \<longleftrightarrow>
          0 \<le> (c + scrollX (viewport s)) / pixelsPerHour (viewport s)
                * pixelsPerHour (viewport (zoomViewport f c s)) - c)"
proof -
  define p where "p = max 0.25 (min 120 (pixelsPerHour (viewport s) * f))"
  define n where "n = (c + scrollX (viewport s)) / pixelsPerHour (viewport s) * p - c"
  have pp: "pixelsPerHour (viewport (zoomViewport f c s)) = p"
    by (simp add: zoomViewport_def Let_def p_def)
  have sx: "scrollX (viewport (zoomViewport f c s)) = max 0 n"
    by (simp add: zoomViewport_def Let_def p_def n_def)
  have org: "timeOrigin (viewport (zoomViewport f c s)) = timeOrigin (viewport s)"
    by (simp add: zoomViewport_def Let_def)
  have ppos: "0 < p" by (simp add: p_def)
  have bounds: "0.25 \<le> p \<and> p \<le> 120" by (simp add: p_def)
  have before: "xToTime (viewport s) c = timeOrigin (viewport s) + (c + n) / p * MS_PER_HOUR"
    using ppos by (simp add: xToTime_def n_def)
  have after: "xToTime (viewport (zoomViewport f c s)) c
               = timeOrigin (viewport s) + (c + max 0 n) / p * MS_PER_HOUR"
    by (simp add: xToTime_def pp sx org)
  have "(c + max 0 n) / p * MS_PER_HOUR = (c + n) / p * MS_PER_HOUR \<longleftrightarrow> 0 \<le> n"
    using ppos by (auto simp: MS_PER_HOUR_def max_def)
  with before after bounds show ?thesis
    by (simp add: pp n_def)
qed

theorem zoomViewport_anchor_witness:
  "pixelsPerHour (viewport ex_store) \<noteq> 0 \<and>
   pixelsPerHour (viewport (zoomViewport 2 100 ex_store)) = 20 \<and>
   xToTime (viewport (zoomViewport 2 100 ex_store)) 100 = xToTime (viewport ex_store) 100"
proof -
  have h: "pixelsPerHour (viewport ex_store) \<noteq> 0"
    by (simp add: ex_store_def ex_viewport_def)
  have p: "pixelsPerHour (viewport (zoomViewport 2 100 ex_store)) = 20"
    by (simp add: zoomViewport_def Let_def ex_store_def ex_viewport_def)
  have n: "0 \<le> (100 + scrollX (viewport ex_store)) / pixelsPerHour (viewport ex_store)
                * pixelsPerHour (viewport (zoomViewport 2 100 ex_store)) - 100"
    unfolding p by (simp add: ex_store_def ex_viewport_def)
  show ?thesis using h p n zoomViewport_anchor [OF h, of 2 100] by simp
qed

text \<open>
  Claim C10. From a viewport with \<open>scrollX \<ge> 0\<close> and \<open>scrollY \<ge> 0\<close>, \<open>panViewport\<close> with
  any deltas leaves \<open>scrollX \<ge> 0\<close> and \<open>scrollY \<ge> 0\<close>, and so does \<open>zoomViewport\<close> with any
  factor and anchor when \<open>pixelsPerHour\<close>, by which it divides, is not zero (zero is
  outside the zoom bounds, and no action of the store sets it). The bound on \<open>scrollX\<close> is
  the \<open>Math.max(0, _)\<close> of the two actions.
\<close>

theorem scroll_never_negative:
  assumes "0 \<le> scrollX (viewport s)" and "0 \<le> scrollY (viewport s)"
  shows "0 \<le> scrollX (viewport (panViewport dx dy s)) \<and>
         0 \<le> scrollY (viewport (panViewport dx dy s)) \<and>
         (pixelsPerHour (viewport s) \<noteq> 0 \<longrightarrow>
            0 \<le> scrollX (viewport (zoomViewport f c s)) \<and>
            0 \<le> scrollY (viewport (zoomViewport f c s)))"
  using assms by (simp add: panViewport_def zoomViewport_def Let_def)

theorem scroll_never_negative_witness:
  "0 \<le> scrollX (viewport ex_store) \<and> 0 \<le> scrollY (viewport ex_store) \<and>
   pixelsPerHour (viewport ex_store) \<noteq> 0 \<and>
   scrollX (viewport (panViewport (-5000) (-70) ex_store)) = 0 \<and>
   scrollY (viewport (panViewport (-5000) (-70) ex_store)) = 0 \<and>
   scrollX (viewport (zoomViewport (1/2) 100 ex_store)) = 0 \<and>
   scrollY (viewport (zoomViewport (1/2) 100 ex_store)) = 0"
proof -
  have a: "0 \<le> scrollX (viewport ex_store)" and b: "0 \<le> scrollY (viewport ex_store)"
    and p: "pixelsPerHour (viewport ex_store) \<noteq> 0"
    by (simp_all add: ex_store_def ex_viewport_def)
  have c: "scrollX (viewport (panViewport (-5000) (-70) ex_store)) \<le> 0"
          "scrollY (viewport (panViewport (-5000) (-70) ex_store)) \<le> 0"
          "scrollX (viewport (zoomViewport (1/2) 100 ex_store)) \<le> 0"
          "scrollY (viewport (zoomViewport (1/2) 100 ex_store)) \<le> 0"
    by (simp_all add: panViewport_def zoomViewport_def Let_def ex_store_def ex_viewport_def)
  show ?thesis
    using a b p c scroll_never_negative [OF a b, of "-5000" "-70" "1/2" 100] by simp
qed

section \<open>Dependency chain\<close>

text \<open>The accessors return what the maps hold.\<close>

lemma set_getPredecessors:
  "set (getPredecessors im a) = {b. \<exists>ps. map_of (predecessorIndex im) a = Some ps \<and> b \<in> set ps}"
  by (cases "map_of (predecessorIndex im) a") (auto simp: getPredecessors_def)

lemma set_getSuccessors:
  "set (getSuccessors im a) = {b. \<exists>ss. map_of (successorIndex im) a = Some ss \<and> b \<in> set ss}"
  by (cases "map_of (successorIndex im) a") (auto simp: getSuccessors_def)

lemma set_pushes:
  "set (pushes im direction visited current) = chain_edges im direction `` {current} - set visited"
  by (auto simp: pushes_def chain_edges_def set_getPredecessors set_getSuccessors)

lemma chain_loop_mono: "set visited \<subseteq> set (chain_loop im direction visited queue)"
proof (induction im direction visited queue rule: chain_loop.induct)
  case (1 im direction visited)
  then show ?case by simp
next
  case (2 im direction visited current queue)
  then show ?case by (cases "current \<in> set visited") auto
qed

text \<open>Soundness: whatever the loop returns was visited before or is reachable from the queue.\<close>

lemma chain_loop_sound:
  "set (chain_loop im direction visited queue)
     \<subseteq> set visited \<union> (chain_edges im direction)\<^sup>* `` set queue"
proof (induction im direction visited queue rule: chain_loop.induct)
  case (1 im direction visited)
  then show ?case by simp
next
  case (2 im direction visited current queue)
  let ?E = "chain_edges im direction"
  show ?case
  proof (cases "current \<in> set visited")
    case True
    with "2.IH"(1) show ?thesis by auto
  next
    case False
    have "set (chain_loop im direction visited (current # queue))
          \<subseteq> set (visited @ [current]) \<union>
             ?E\<^sup>* `` set (queue @ pushes im direction (visited @ [current]) current)"
      using "2.IH"(2) [OF False] False by simp
    also have "\<dots> \<subseteq> set visited \<union> ?E\<^sup>* `` set (current # queue)"
    proof -
      have "?E\<^sup>* `` set (pushes im direction (visited @ [current]) current) \<subseteq> ?E\<^sup>* `` {current}"
        unfolding set_pushes by (auto intro: converse_rtrancl_into_rtrancl)
      then show ?thesis by auto
    qed
    finally show ?thesis .
  qed
qed

text \<open>Completeness: when every edge out of a visited id ends in a visited or a queued id,
  the result holds the queue and is closed under the edges.\<close>

lemma chain_loop_closed:
  assumes "\<forall>v \<in> set visited. chain_edges im direction `` {v} \<subseteq> set visited \<union> set queue"
  shows "set queue \<subseteq> set (chain_loop im direction visited queue) \<and>
         (\<forall>v \<in> set (chain_loop im direction visited queue).
            chain_edges im direction `` {v} \<subseteq> set (chain_loop im direction visited queue))"
  using assms
proof (induction im direction visited queue rule: chain_loop.induct)
  case (1 im direction visited)
  then show ?case by simp
next
  case (2 im direction visited current queue)
  let ?E = "chain_edges im direction"
  show ?case
  proof (cases "current \<in> set visited")
    case True
    have pre: "\<forall>v \<in> set visited. ?E `` {v} \<subseteq> set visited \<union> set queue"
      using "2.prems" True by auto
    have cur: "current \<in> set (chain_loop im direction visited queue)"
      using True chain_loop_mono by blast
    from "2.IH"(1) [OF True pre] cur True show ?thesis by simp
  next
    case False
    let ?v = "visited @ [current]"
    let ?q = "queue @ pushes im direction ?v current"
    have pre: "\<forall>v \<in> set ?v. ?E `` {v} \<subseteq> set ?v \<union> set ?q"
    proof
      fix v assume "v \<in> set ?v"
      then consider "v \<in> set visited" | "v = current" by auto
      then show "?E `` {v} \<subseteq> set ?v \<union> set ?q"
      proof cases
        case 1
        with "2.prems" show ?thesis by auto
      next
        case 2
        then show ?thesis by (auto simp: set_pushes)
      qed
    qed
    have cur: "current \<in> set (chain_loop im direction ?v ?q)"
      using chain_loop_mono [of ?v im direction ?q] by auto
    from "2.IH"(2) [OF False pre] cur False show ?thesis by simp
  qed
qed

lemma chain_loop_reach:
  "set (chain_loop im direction [] [tid]) = (chain_edges im direction)\<^sup>* `` {tid}"
proof
  show "set (chain_loop im direction [] [tid]) \<subseteq> (chain_edges im direction)\<^sup>* `` {tid}"
    using chain_loop_sound [of im direction "[]" "[tid]"] by simp
next
  let ?r = "set (chain_loop im direction [] [tid])"
  have c: "tid \<in> ?r \<and> (\<forall>v \<in> ?r. chain_edges im direction `` {v} \<subseteq> ?r)"
    using chain_loop_closed [of "[]" im direction "[tid]"] by simp
  have "v \<in> ?r" if "(tid, v) \<in> (chain_edges im direction)\<^sup>*" for v
    using that
  proof (induction rule: rtrancl_induct)
    case base
    then show ?case using c by simp
  next
    case (step y z)
    then show ?case using c by blast
  qed
  then show "(chain_edges im direction)\<^sup>* `` {tid} \<subseteq> ?r" by auto
qed

text \<open>
  Claim C8. For every pair of adjacency maps, cyclic or not, every task id and every
  direction, \<open>getDependencyChain\<close> returns (its loop is a total function: the termination
  proof is with the definition of \<open>chain_loop\<close>) and the ids it returns are exactly those
  reachable from the task id by one or more edges of the adjacency graph in the requested
  direction, the task id itself left out. The edges are those of \<open>predecessorIndex\<close> and
  \<open>successorIndex\<close> themselves, not of the accessors that the loop calls.
\<close>

theorem getDependencyChain_closure:
  "set (getDependencyChain im tid direction)
     = {v. (tid, v) \<in> (chain_edges im direction)\<^sup>+} - {tid}"
proof -
  have "set (getDependencyChain im tid direction)
          = (chain_edges im direction)\<^sup>* `` {tid} - {tid}"
    unfolding getDependencyChain_def set_filter chain_loop_reach by auto
  also have "\<dots> = {v. (tid, v) \<in> (chain_edges im direction)\<^sup>+} - {tid}"
    by (auto simp: rtrancl_eq_or_trancl)
  finally show ?thesis .
qed

section \<open>Drag start\<close>

text \<open>
  Claim C9. For a task whose \<open>constraints.fixedTime\<close> is true, and for a task id that is
  not in the store, \<open>startDrag\<close> is refused: it returns the state it was given, so no
  \<open>DragState\<close> is created and nothing else changes.
\<close>

theorem startDrag_refused:
  assumes "tasks s tid = None \<or> (\<exists>t. tasks s tid = Some t \<and> is_fixedTime t)"
  shows "startDrag tid ty x y s = s"
  using assms by (auto simp: startDrag_def)

theorem startDrag_refused_witness:
  "(\<exists>t. tasks ex_store_fixed ''t2'' = Some t \<and> is_fixedTime t) \<and>
   startDrag ''t2'' move 10 20 ex_store_fixed = ex_store_fixed \<and>
   tasks ex_store_fixed ''t3'' = None \<and>
   startDrag ''t3'' resize_end 10 20 ex_store_fixed = ex_store_fixed \<and>
   drag (startDrag ''t1'' move 10 20 ex_store_fixed) \<noteq> None"
proof -
  have a: "\<exists>t. tasks ex_store_fixed ''t2'' = Some t \<and> is_fixedTime t"
    by (simp add: ex_store_fixed_def addTask_def ex_task_def is_fixedTime_def ex_fixed_def
          hydrateTask_def Let_def StoredTask.extend_def)
  have b: "tasks ex_store_fixed ''t3'' = None"
    by (simp add: ex_store_fixed_def addTask_def ex_task_def ex_store_def)
  have c: "drag (startDrag ''t1'' move 10 20 ex_store_fixed) \<noteq> None"
    by (simp add: startDrag_def ex_store_fixed_def addTask_def ex_task_def is_fixedTime_def
          hydrateTask_def Let_def StoredTask.extend_def)
  show ?thesis
    using a b c startDrag_refused [of ex_store_fixed "''t2''" move 10 20]
      startDrag_refused [of ex_store_fixed "''t3''" resize_end 10 20]
    by simp
qed

section \<open>Derived fields\<close>

lemma foldl_durations:
  "foldl (\<lambda>sum phase. sum + duration phase) a ps = a + sum_list (map duration ps)"
  by (induction ps arbitrary: a) simp_all

lemma calculateTotalDuration_sum: "calculateTotalDuration ps = sum_list (map duration ps)"
  by (simp add: calculateTotalDuration_def foldl_durations)

lemma task_ok_hydrateTask: "task_ok (hydrateTask t)"
  by (simp add: task_ok_def hydrateTask_def Let_def calculateTotalDuration_sum
        StoredTask.extend_def StoredTask.defs Task.defs)

lemma task_ok_recompute: "task_ok (recompute t)"
  by (simp add: task_ok_def recompute_def Let_def calculateTotalDuration_sum)

lemma task_ok_apply_updates: "task_ok t \<Longrightarrow> task_ok (apply_updates t u)"
proof (cases "upd_startTime u \<noteq> None \<or> upd_phases u \<noteq> None")
  case True
  then show ?thesis by (simp add: apply_updates_def Let_def task_ok_recompute)
next
  case False
  assume "task_ok t"
  with False show ?thesis
    by (simp add: apply_updates_def Let_def assign_updates_def task_ok_def)
qed

lemma store_inv_upd:
  "store_inv s \<Longrightarrow> task_ok t \<Longrightarrow> store_inv (s\<lparr> tasks := (tasks s)(tid \<mapsto> t) \<rparr>)"
  by (simp add: store_inv_def)

lemma store_inv_tasks_eq: "tasks s' = tasks s \<Longrightarrow> store_inv s \<Longrightarrow> store_inv s'"
  by (simp add: store_inv_def)

lemma hydrated_map_ok:
  "(\<forall>tid t. m tid = Some t \<longrightarrow> task_ok t) \<Longrightarrow>
   foldl (\<lambda>m task. m(task_id task \<mapsto> hydrateTask task)) m ts tid = Some t \<Longrightarrow> task_ok t"
proof (induction ts arbitrary: m)
  case Nil
  then show ?case by simp
next
  case (Cons a ts)
  have "\<forall>tid t. (m(task_id a \<mapsto> hydrateTask a)) tid = Some t \<longrightarrow> task_ok t"
    using Cons.prems(1) by (auto simp: task_ok_hydrateTask)
  from Cons.IH [OF this] Cons.prems(2) show ?case by simp
qed

lemma store_inv_setTasks: "store_inv (setTasks ts s)"
  unfolding store_inv_def setTasks_def
  using hydrated_map_ok [of Map.empty ts] by simp

lemma store_inv_addTask: "store_inv s \<Longrightarrow> store_inv (addTask t s)"
  unfolding addTask_def by (rule store_inv_upd) (simp_all add: task_ok_hydrateTask)

lemma store_inv_updateTask: "store_inv s \<Longrightarrow> store_inv (updateTask tid u s)"
proof (cases "tasks s tid")
  case None
  then show "store_inv s \<Longrightarrow> ?thesis" by (simp add: updateTask_def)
next
  case (Some task)
  assume inv: "store_inv s"
  then have "task_ok task" using Some by (simp add: store_inv_def)
  then have "task_ok (apply_updates task u)" by (rule task_ok_apply_updates)
  with inv show ?thesis unfolding updateTask_def Some by (simp add: store_inv_upd)
qed

lemma store_inv_updateTasks: "store_inv s \<Longrightarrow> store_inv (updateTasks us s)"
  unfolding updateTasks_def
  by (induction us arbitrary: s) (auto simp: store_inv_updateTask)

lemma store_inv_move_one: "store_inv s \<Longrightarrow> store_inv (move_one d r s tid)"
proof (cases "tasks s tid")
  case None
  then show "store_inv s \<Longrightarrow> ?thesis" by (simp add: move_one_def)
next
  case (Some task)
  assume inv: "store_inv s"
  then have ok: "task_ok task" using Some by (simp add: store_inv_def)
  show ?thesis
  proof (cases "is_fixedTime task")
    case True
    with inv Some show ?thesis by (simp add: move_one_def)
  next
    case False
    have "task_ok (case r of None \<Rightarrow> task\<lparr> startTime := startTime task + d,
              u_endTime := startTime task + d + u_totalDuration task * 60 * 1000 \<rparr>
            | Some r' \<Rightarrow> task\<lparr> startTime := startTime task + d,
              u_endTime := startTime task + d + u_totalDuration task * 60 * 1000,
              resourceId := r' \<rparr>)"
      using ok by (cases r) (simp_all add: task_ok_def)
    with inv False Some show ?thesis
      by (cases r) (simp_all add: move_one_def Let_def store_inv_def)
  qed
qed

lemma store_inv_moveTasks: "store_inv s \<Longrightarrow> store_inv (moveTasks ids d r s)"
  unfolding moveTasks_def
  by (induction ids arbitrary: s) (auto simp: store_inv_move_one)

lemma store_inv_deleteTask: "store_inv s \<Longrightarrow> store_inv (deleteTask tid s)"
  by (simp add: store_inv_def deleteTask_def)

lemma store_inv_commit_times:
  "store_inv s \<Longrightarrow> commit_times d a b s = Inr s' \<Longrightarrow> store_inv s'"
  by (auto simp: commit_times_def Let_def split: if_splits option.splits
           intro: store_inv_tasks_eq [OF _ store_inv_updateTask])

lemma store_inv_commitDrag: "store_inv s \<Longrightarrow> commitDrag s = Inr s' \<Longrightarrow> store_inv s'"
  by (auto simp: commitDrag_def Let_def split: option.splits if_splits
           dest: store_inv_commit_times intro: store_inv_tasks_eq)

lemma store_inv_commitDrag_ui: "store_inv s \<Longrightarrow> commitDrag_ui s = Inr s' \<Longrightarrow> store_inv s'"
  by (auto simp: commitDrag_ui_def Let_def split: option.splits if_splits
           dest: store_inv_commit_times intro: store_inv_tasks_eq)

lemma store_inv_step: "store_inv s \<Longrightarrow> step s a = Some s' \<Longrightarrow> store_inv s'"
proof (cases a)
  case CommitDrag
  assume "store_inv s" and "step s a = Some s'"
  then show ?thesis using CommitDrag
    by (cases "commitDrag s") (auto dest: store_inv_commitDrag split: error.splits)
next
  case CommitDragUi
  assume "store_inv s" and "step s a = Some s'"
  then show ?thesis using CommitDragUi
    by (cases "commitDrag_ui s") (auto dest: store_inv_commitDrag_ui split: error.splits)
qed (auto simp: store_inv_setTasks store_inv_addTask store_inv_updateTask store_inv_updateTasks
       store_inv_moveTasks store_inv_deleteTask
       intro: store_inv_tasks_eq
       simp: panViewport_def zoomViewport_def Let_def startDrag_def updateDrag_def
       updateDrag_ui_def cancelDrag_def split: option.splits if_splits)

lemma store_inv_run: "store_inv s \<Longrightarrow> run acts s = Some s' \<Longrightarrow> store_inv s'"
proof (induction acts arbitrary: s)
  case Nil
  then show ?case by simp
next
  case (Cons a acts)
  from Cons.prems(2) obtain s1 where s1: "step s a = Some s1" "run acts s1 = Some s'"
    by (auto split: option.splits)
  from store_inv_step [OF Cons.prems(1) s1(1)] have "store_inv s1" .
  from Cons.IH [OF this s1(2)] show ?case .
qed

text \<open>
  In every state that a run of the store actions reaches from an empty task collection
  without dividing by zero, every task has \<open>_totalDuration\<close> equal to the sum of the
  durations of its phases and \<open>_endTime\<close> equal to \<open>startTime + _totalDuration * 60000\<close>:
  each action that changes \<open>startTime\<close> or \<open>phases\<close> recomputes the two fields.
\<close>

lemma derived_fields_current:
  assumes "tasks s0 = Map.empty" and "run acts s0 = Some s" and "tasks s tid = Some t"
  shows "u_totalDuration t = sum_list (map duration (phases t)) \<and>
         u_endTime t = startTime t + u_totalDuration t * 60000"
proof -
  have "store_inv s0" using assms(1) by (simp add: store_inv_def)
  then have "store_inv s" using assms(2) by (rule store_inv_run)
  with assms(3) have "task_ok t" by (simp add: store_inv_def)
  then show ?thesis by (simp add: task_ok_def)
qed

lemma derived_fields_current_example:
  "\<exists>t. run_task ex_acts (createInitialState 0) ''t1'' = Some t \<and>
        startTime t = 3600000 \<and> map duration (phases t) = [9, 43, 9] \<and>
        u_totalDuration t = 61 \<and> u_endTime t = 3600000 + 61 * 60000"
  by (simp add: run_task_def ex_acts_def createInitialState_def moveTasks_def move_one_def
        ex_eval round_def)


section \<open>Hit testing\<close>

lemma set_tree_rebuild:
  "set (tree (rebuild ts rows)) =
     {task_bounds task row | task row.
        task \<in> set ts \<and> rowByResource rows (resourceId task) = Some row}"
proof -
  have "x \<in> set (tree (rebuild ts rows)) \<longleftrightarrow>
        (\<exists>task row. x = task_bounds task row \<and> task \<in> set ts \<and>
           rowByResource rows (resourceId task) = Some row)" for x
  proof
    assume "x \<in> set (tree (rebuild ts rows))"
    then obtain task where task: "task \<in> set ts"
        "x \<in> set (case rowByResource rows (resourceId task) of
                     None \<Rightarrow> [] | Some row \<Rightarrow> [task_bounds task row])"
      by (auto simp: rebuild_def Let_def rbush_load_def)
    then show "\<exists>task row. x = task_bounds task row \<and> task \<in> set ts \<and>
           rowByResource rows (resourceId task) = Some row"
      by (cases "rowByResource rows (resourceId task)") auto
  next
    assume "\<exists>task row. x = task_bounds task row \<and> task \<in> set ts \<and>
           rowByResource rows (resourceId task) = Some row"
    then obtain task row where "x = task_bounds task row" "task \<in> set ts"
        "rowByResource rows (resourceId task) = Some row"
      by blast
    then show "x \<in> set (tree (rebuild ts rows))"
      by (force simp: rebuild_def Let_def rbush_load_def)
  qed
  then show ?thesis by blast
qed

text \<open>
  Claim C6. Let \<open>rebuild\<close> index a list of tasks with pairwise different ids, and let a task
  of the list have a row in the \<open>rowByResource\<close> map. Then \<open>queryPoint\<close> at a point
  strictly inside the box of the task (\<open>startTime < t < _endTime\<close>, row top \<open>< y <\<close> row top
  plus height) returns a list that holds the id of the task, and at a point strictly
  outside the box a list that does not.
\<close>

theorem queryPoint_inside_outside:
  assumes "distinct (map task_id ts)" and "task \<in> set ts"
    and "rowByResource rows (resourceId task) = Some row"
  shows "(startTime task < t \<and> t < u_endTime task \<and>
          virtualY row < y \<and> y < virtualY row + row_height row
            \<longrightarrow> task_id task \<in> set (queryPoint (rebuild ts rows) t y)) \<and>
         (t < startTime task \<or> u_endTime task < t \<or>
          y < virtualY row \<or> virtualY row + row_height row < y
            \<longrightarrow> task_id task \<notin> set (queryPoint (rebuild ts rows) t y))"
proof (intro conjI impI)
  assume inside: "startTime task < t \<and> t < u_endTime task \<and>
          virtualY row < y \<and> y < virtualY row + row_height row"
  have "task_bounds task row \<in> set (tree (rebuild ts rows))"
    unfolding set_tree_rebuild using assms(2,3) by blast
  moreover have "intersects \<lparr> minX = t, minY = y, maxX = t, maxY = y \<rparr> (task_bounds task row)"
    using inside by (simp add: intersects_def task_bounds_def)
  ultimately have "task_bounds task row
      \<in> set (rbush_search (tree (rebuild ts rows)) \<lparr> minX = t, minY = y, maxX = t, maxY = y \<rparr>)"
    by (simp add: rbush_search_def)
  then have "item_taskId (task_bounds task row) \<in> set (queryPoint (rebuild ts rows) t y)"
    unfolding queryPoint_def by (simp only: set_map image_eqI)
  then show "task_id task \<in> set (queryPoint (rebuild ts rows) t y)"
    by (simp add: task_bounds_def)
next
  assume outside: "t < startTime task \<or> u_endTime task < t \<or>
          y < virtualY row \<or> virtualY row + row_height row < y"
  show "task_id task \<notin> set (queryPoint (rebuild ts rows) t y)"
  proof
    assume "task_id task \<in> set (queryPoint (rebuild ts rows) t y)"
    then obtain item where item: "item \<in> set (tree (rebuild ts rows))"
        "intersects \<lparr> minX = t, minY = y, maxX = t, maxY = y \<rparr> item"
        "item_taskId item = task_id task"
      by (auto simp: queryPoint_def rbush_search_def)
    from item(1) obtain task' row' where t': "item = task_bounds task' row'"
        "task' \<in> set ts" "rowByResource rows (resourceId task') = Some row'"
      unfolding set_tree_rebuild by blast
    from item(3) t'(1) have "task_id task' = task_id task" by (simp add: task_bounds_def)
    with assms(1,2) t'(2) have "task' = task" by (simp add: distinct_map inj_on_def)
    with t'(3) assms(3) have "row' = row" by simp
    with item(2) t'(1) \<open>task' = task\<close> outside show False
      by (auto simp: intersects_def task_bounds_def)
  qed
qed

theorem queryPoint_inside_outside_witness:
  "distinct (map task_id ex_tasks) \<and> hydrateTask (ex_task ''t1'' 0 None) \<in> set ex_tasks \<and>
   rowByResource ex_rows ''r1'' = Some ex_row \<and>
   ''t1'' \<in> set (queryPoint (rebuild ex_tasks ex_rows) 1000 50) \<and>
   ''t1'' \<notin> set (queryPoint (rebuild ex_tasks ex_rows) 9000001 50) \<and>
   ''t1'' \<notin> set (queryPoint (rebuild ex_tasks ex_rows) 1000 10)"
proof -
  let ?task = "hydrateTask (ex_task ''t1'' 0 None)"
  let ?row = ex_row
  have a: "distinct (map task_id ex_tasks)"
    by (simp add: ex_tasks_def hydrateTask_def Let_def ex_task_def StoredTask.extend_def)
  have b: "?task \<in> set ex_tasks" by (simp add: ex_tasks_def)
  have c: "rowByResource ex_rows (resourceId ?task) = Some ?row"
    by (simp add: rowByResource_def ex_rows_def ex_row_def hydrateTask_def Let_def ex_task_def
          StoredTask.extend_def)
  have v: "startTime ?task = 0" "u_endTime ?task = 8400000" "task_id ?task = ''t1''"
      "resourceId ?task = ''r1''" "virtualY ?row = 32" "row_height ?row = 40"
    by (simp_all add: hydrateTask_def Let_def ex_task_def StoredTask.extend_def Task.defs
          StoredTask.defs calculateTotalDuration_def ex_phases_def ex_row_def)
  show ?thesis
    using a b c queryPoint_inside_outside [OF a b c, of 1000 50]
      queryPoint_inside_outside [OF a b c, of 9000001 50]
      queryPoint_inside_outside [OF a b c, of 1000 10]
    by (simp add: v)
qed

section \<open>Drag commit\<close>

lemma snap_on_grid:
  assumes "interval \<noteq> 0" and "on_grid interval x"
  shows "of_int (round (x / interval)) * interval = x"
proof -
  from assms(2) obtain k :: int where "x = of_int k * interval" by (auto simp: on_grid_def)
  with assms(1) show ?thesis by simp
qed

lemma snap_interval_bounds:
  "15 * 60000 \<le> getSnapIntervalMs z m \<and> m * 60000 \<le> getSnapIntervalMs z m"
  by (cases z) (auto simp: getSnapIntervalMs_def ZOOM_SNAP_INTERVALS_def Let_def)

lemma grid_gap:
  assumes "on_grid interval a" and "on_grid interval b" and "a < b" and "0 < interval"
  shows "a + interval \<le> b"
proof -
  from assms(1,2) obtain j k :: int where jk: "a = of_int j * interval" "b = of_int k * interval"
    by (auto simp: on_grid_def)
  with assms(3,4) have "j < k" by simp
  then have "of_int j + (1::real) \<le> of_int k" by linarith
  then have "(of_int j + 1) * interval \<le> of_int k * interval"
    using assms(4) by (intro mult_right_mono) simp_all
  then show ?thesis by (simp add: jk algebra_simps)
qed

lemma scale_phases_one:
  assumes "\<forall>p \<in> set ps. duration p \<in> \<int>"
  shows "scale_phases 1 ps = ps"
proof -
  have "p\<lparr> duration := of_int (round (duration p * 1)) \<rparr> = p" if "p \<in> set ps" for p
  proof -
    from that assms obtain k :: int where "duration p = of_int k" by (auto elim: Ints_cases)
    then show ?thesis by simp
  qed
  then show ?thesis by (simp add: scale_phases_def map_idI)
qed

lemma startDrag_fresh:
  "tasks s tid = Some t \<Longrightarrow> \<not> is_fixedTime t \<Longrightarrow>
   startDrag tid ty x y s = s\<lparr> drag := Some (fresh_drag tid ty x y t) \<rparr>"
  by (simp add: startDrag_def fresh_drag_def)

lemma update_preview_still:
  assumes "ty = resize_start \<or> ty = resize_end \<Longrightarrow> startTime t + m \<le> u_endTime t"
  shows "update_preview m pph x y (fresh_drag tid ty x y t) = fresh_drag tid ty x y t"
  using assms by (cases ty) (simp_all add: update_preview_def fresh_drag_def Let_def)

lemma commit_times_move:
  assumes "tasks s tid = Some t" and "ty = move \<or> ty = reassign"
  shows "commit_keeps tid t
           (commit_times (fresh_drag tid ty x y t) (startTime t) e
              (s\<lparr> drag := Some (fresh_drag tid ty x y t) \<rparr>))"
  using assms
  by (auto simp: commit_keeps_def committed_task_def commit_times_def fresh_drag_def Let_def
        updateTask_def apply_updates_def assign_updates_def recompute_def no_updates_def)

lemma commit_times_resize:
  assumes "tasks s tid = Some t" and "ty = resize_start \<or> ty = resize_end"
    and "task_ok t" and "u_totalDuration t \<noteq> 0" and "\<forall>p \<in> set (phases t). duration p \<in> \<int>"
  shows "commit_keeps tid t
           (commit_times (fresh_drag tid ty x y t) (startTime t) (u_endTime t)
              (s\<lparr> drag := Some (fresh_drag tid ty x y t) \<rparr>))"
proof -
  have "(u_endTime t - startTime t) / (60 * 1000) / u_totalDuration t = 1"
    using assms(3,4) by (simp add: task_ok_def)
  then show ?thesis
    using assms(1,2) scale_phases_one [OF assms(5)]
    by (auto simp: commit_keeps_def committed_task_def commit_times_def fresh_drag_def Let_def
          updateTask_def apply_updates_def assign_updates_def recompute_def no_updates_def)
qed

text \<open>
  Claim C1, as stated, fails: \<open>commitDrag\<close> of the combined store snaps the preview times
  to the snap interval before it commits. A task that starts ten minutes past the hour,
  dragged with no pointer movement at the day zoom level (snap interval one hour), is
  committed at the full hour.
\<close>

theorem zero_movement_commit_counterexample:
  "map_option startTime (tasks ex_offgrid ''t1'') = Some 600000 \<and>
   map_option startTime
     (committed_task ''t1'' (commitDrag (startDrag ''t1'' move 0 0 ex_offgrid))) = Some 0"
  by (simp add: ex_offgrid_def ex_eval round_def)

text \<open>
  In the legacy UI store a zero-movement resize can still change a task. \<open>updateDrag\<close>
  keeps the preview at least 15 minutes long: a task of one phase of 10 minutes that starts
  at 1:00, dragged by its start edge and released where the drag began, is committed at
  0:55 with a phase of 15 minutes. And the commit rounds every phase duration: a phase of
  ten and a half minutes becomes one of 11 minutes.
\<close>

lemma legacy_short_resize_example:
  "map_option startTime (tasks ex_short ''t1'') = Some 3600000 \<and>
   map_option phase_durations (tasks ex_short ''t1'') = Some [10] \<and>
   map_option startTime
     (committed_task ''t1''
        (commitDrag_ui (updateDrag_ui 100 0 (startDrag ''t1'' resize_start 100 0 ex_short))))
     = Some 3300000 \<and>
   map_option phase_durations
     (committed_task ''t1''
        (commitDrag_ui (updateDrag_ui 100 0 (startDrag ''t1'' resize_start 100 0 ex_short))))
     = Some [15]"
  by (simp add: ex_short_def phase_durations_def ex_eval round_def)

lemma legacy_rounding_resize_example:
  "map_option phase_durations (tasks ex_half ''t1'') = Some [21 / 2] \<and>
   map_option phase_durations
     (committed_task ''t1'' (commitDrag_ui (startDrag ''t1'' resize_end 100 0 ex_half)))
     = Some [11]"
  by (simp add: ex_half_def phase_durations_def ex_eval round_def)

text \<open>
  Claim C1, amended. Let a task be in the store and not \<open>fixedTime\<close>, let
  \<open>pixelsPerHour\<close> be nonzero, and let a drag of any type be started with \<open>startDrag\<close> and
  committed with zero pointer movement (no \<open>updateDrag\<close>, or \<open>updateDrag\<close> at the pointer
  position of the start). In the legacy UI store, whose \<open>commitDrag\<close> does not snap, a
  \<open>move\<close> or \<open>reassign\<close> drag leaves \<open>startTime\<close>, \<open>phases\<close> and \<open>resourceId\<close> of the
  task unchanged, whatever its start time; a \<open>resize-start\<close> or \<open>resize-end\<close> drag does so
  when the derived fields of the task are current, every phase duration is a whole number
  of minutes and the total duration is not zero (without \<open>updateDrag\<close>) or at least 15
  minutes (with \<open>updateDrag\<close>). In the combined store, whose \<open>commitDrag\<close> snaps, a \<open>move\<close>
  or \<open>reassign\<close> drag leaves the three fields unchanged when the \<open>startTime\<close> of the task
  is a whole multiple of the snap interval; a \<open>resize-start\<close> or \<open>resize-end\<close> drag does so
  when in addition the derived fields are current, the total duration is positive, the
  \<open>_endTime\<close> is a whole multiple of the snap interval too and every phase duration is a
  whole number of minutes.
\<close>

theorem zero_movement_commit:
  assumes stored: "tasks s tid = Some t" and movable: "\<not> is_fixedTime t"
    and "pixelsPerHour (viewport s) \<noteq> 0"
  shows
    "((ty = resize_start \<or> ty = resize_end \<longrightarrow>
         task_ok t \<and> u_totalDuration t \<noteq> 0 \<and> (\<forall>p \<in> set (phases t). duration p \<in> \<int>))
      \<longrightarrow> commit_keeps tid t (commitDrag_ui (startDrag tid ty x y s))) \<and>
     ((ty = resize_start \<or> ty = resize_end \<longrightarrow>
         task_ok t \<and> 15 \<le> u_totalDuration t \<and> (\<forall>p \<in> set (phases t). duration p \<in> \<int>))
      \<longrightarrow> commit_keeps tid t (commitDrag_ui (updateDrag_ui x y (startDrag tid ty x y s)))) \<and>
     (on_grid (getSnapIntervalMs (zoomLevel (viewport s)) (minResolution s)) (startTime t) \<and>
      (ty = resize_start \<or> ty = resize_end \<longrightarrow>
         task_ok t \<and> 0 < u_totalDuration t \<and>
         on_grid (getSnapIntervalMs (zoomLevel (viewport s)) (minResolution s)) (u_endTime t) \<and>
         (\<forall>p \<in> set (phases t). duration p \<in> \<int>))
      \<longrightarrow> commit_keeps tid t (commitDrag (startDrag tid ty x y s)) \<and>
          commit_keeps tid t (commitDrag (updateDrag x y (startDrag tid ty x y s))))"
proof -
  define iv where "iv = getSnapIntervalMs (zoomLevel (viewport s)) (minResolution s)"
  define d where "d = fresh_drag tid ty x y t"
  define s1 where "s1 = s\<lparr> drag := Some d \<rparr>"
  let ?resize = "ty = resize_start \<or> ty = resize_end"
  let ?ints = "\<forall>p \<in> set (phases t). duration p \<in> \<int>"
  have ivb: "15 * 60000 \<le> iv" "minResolution s * 60000 \<le> iv"
    using snap_interval_bounds [of "zoomLevel (viewport s)" "minResolution s"]
    by (simp_all add: iv_def)
  then have ivpos: "0 < iv" by simp
  have sd: "startDrag tid ty x y s = s1"
    using startDrag_fresh [OF stored movable] by (simp add: s1_def d_def)
  have s1f: "drag s1 = Some d" "tasks s1 = tasks s" "viewport s1 = viewport s"
      "minResolution s1 = minResolution s"
    by (simp_all add: s1_def)
  have dv: "dependencyViolations d = []" "previewStartTime d = startTime t"
      "previewEndTime d = u_endTime t"
    by (simp_all add: d_def fresh_drag_def)
  have keep: "commit_keeps tid t (commit_times d (startTime t) e s1)"
    if "?resize \<Longrightarrow> e = u_endTime t \<and> task_ok t \<and> u_totalDuration t \<noteq> 0 \<and> ?ints" for e
  proof (cases "ty = move \<or> ty = reassign")
    case True
    with commit_times_move [OF stored True] show ?thesis by (simp add: s1_def d_def)
  next
    case False
    then have r: ?resize by (cases ty) simp_all
    from that [OF r] have "task_ok t" "u_totalDuration t \<noteq> 0" ?ints "e = u_endTime t"
      by simp_all
    from commit_times_resize [OF stored r this(1,2,3)] this(4) show ?thesis
      by (simp add: s1_def d_def)
  qed
  have legacy: "commit_keeps tid t (commitDrag_ui s1)"
    if "?resize \<longrightarrow> task_ok t \<and> u_totalDuration t \<noteq> 0 \<and> ?ints"
    using keep [of "u_endTime t"] that by (simp add: commitDrag_ui_def s1f dv)
  have legacy_upd: "commit_keeps tid t (commitDrag_ui (updateDrag_ui x y s1))"
    if h: "?resize \<longrightarrow> task_ok t \<and> 15 \<le> u_totalDuration t \<and> ?ints"
  proof -
    have "startTime t + 15 * 60 * 1000 \<le> u_endTime t" if ?resize
      using h that by (simp add: task_ok_def)
    then have "update_preview (15 * 60 * 1000) (pixelsPerHour (viewport s)) x y d = d"
      unfolding d_def by (intro update_preview_still) simp
    then have "updateDrag_ui x y s1 = s1" by (simp add: updateDrag_ui_def s1_def)
    moreover have "?resize \<longrightarrow> task_ok t \<and> u_totalDuration t \<noteq> 0 \<and> ?ints"
      using h by auto
    ultimately show ?thesis using legacy by simp
  qed
  have combined: "commit_keeps tid t (commitDrag s1) \<and>
                  commit_keeps tid t (commitDrag (updateDrag x y s1))"
    if start_grid: "on_grid iv (startTime t)"
      and resize: "?resize \<longrightarrow> task_ok t \<and> 0 < u_totalDuration t \<and>
                     on_grid iv (u_endTime t) \<and> ?ints"
  proof -
    have snap_start: "of_int (round (startTime t / iv)) * iv = startTime t"
      using snap_on_grid [of iv "startTime t"] ivpos start_grid by simp
    have snap_end: "of_int (round (u_endTime t / iv)) * iv = u_endTime t" if ?resize
      using snap_on_grid [of iv "u_endTime t"] ivpos resize that by simp
    have gap: "startTime t + iv \<le> u_endTime t" if ?resize
    proof -
      from resize that have "task_ok t" "0 < u_totalDuration t" "on_grid iv (u_endTime t)"
        by simp_all
      then have "startTime t < u_endTime t" by (simp add: task_ok_def)
      with grid_gap [of iv "startTime t" "u_endTime t"] start_grid \<open>on_grid iv (u_endTime t)\<close>
        ivpos
      show ?thesis by simp
    qed
    have "update_preview (minResolution s * 60 * 1000) (pixelsPerHour (viewport s)) x y d = d"
      unfolding d_def using gap ivb(2) by (intro update_preview_still) fastforce
    then have still: "updateDrag x y s1 = s1" by (simp add: updateDrag_def s1_def)
    have "of_int (round (u_endTime t / iv)) * iv = u_endTime t \<and> task_ok t \<and>
          u_totalDuration t \<noteq> 0 \<and> ?ints" if ?resize
      using snap_end resize that by auto
    then have "commit_keeps tid t
                 (commit_times d (startTime t) (of_int (round (u_endTime t / iv)) * iv) s1)"
      by (rule keep)
    then have "commit_keeps tid t (commitDrag s1)"
      by (simp add: commitDrag_def s1f dv Let_def iv_def [symmetric] snap_start)
    then show ?thesis by (simp add: still)
  qed
  show ?thesis
    using legacy legacy_upd combined by (simp add: sd iv_def)
qed

theorem zero_movement_commit_witness:
  "tasks ex_offgrid ''t1'' = Some ex_hydrated_offgrid \<and> \<not> is_fixedTime ex_hydrated_offgrid \<and>
   pixelsPerHour (viewport ex_offgrid) \<noteq> 0 \<and>
   commit_keeps ''t1'' ex_hydrated_offgrid
     (commitDrag_ui (updateDrag_ui 7 9 (startDrag ''t1'' move 7 9 ex_offgrid))) \<and>
   commit_keeps ''t1'' ex_hydrated_offgrid
     (commitDrag_ui (startDrag ''t1'' resize_start 7 9 ex_offgrid)) \<and>
   tasks ex_store35 ''t1'' = Some ex_hydrated \<and> \<not> is_fixedTime ex_hydrated \<and>
   pixelsPerHour (viewport ex_store35) \<noteq> 0 \<and>
   getSnapIntervalMs (zoomLevel (viewport ex_store35)) (minResolution ex_store35) = 35 * 60000 \<and>
   startTime ex_hydrated = 0 * (35 * 60000) \<and> u_endTime ex_hydrated = 4 * (35 * 60000) \<and>
   commit_keeps ''t1'' ex_hydrated
     (commitDrag (updateDrag 100 0 (startDrag ''t1'' resize_end 100 0 ex_store35))) \<and>
   commit_keeps ''t1'' ex_hydrated
     (commitDrag_ui (updateDrag_ui 100 0 (startDrag ''t1'' resize_end 100 0 ex_store35))) \<and>
   commit_keeps ''t1'' ex_hydrated (commitDrag (startDrag ''t1'' move 7 9 ex_store35))"
proof -
  let ?iv = "getSnapIntervalMs (zoomLevel (viewport ex_store35)) (minResolution ex_store35)"
  have a: "tasks ex_store35 ''t1'' = Some ex_hydrated"
    by (simp add: ex_store35_def ex_store_hour_def ex_hydrated_def addTask_def ex_task_def)
  have b: "\<not> is_fixedTime ex_hydrated"
    by (simp add: ex_hydrated_def ex_eval)
  have p: "pixelsPerHour (viewport ex_store35) \<noteq> 0"
    by (simp add: ex_store35_def ex_store_hour_def ex_eval)
  have iv: "?iv = 35 * 60000"
    by (simp add: ex_store35_def ex_store_hour_def ex_eval)
  have v: "startTime ex_hydrated = 0 * (35 * 60000)" "u_endTime ex_hydrated = 4 * (35 * 60000)"
      "u_totalDuration ex_hydrated = 140"
    by (simp_all add: ex_hydrated_def ex_eval)
  have ok: "task_ok ex_hydrated"
    unfolding ex_hydrated_def by (rule task_ok_hydrateTask)
  have ints: "\<forall>p \<in> set (phases ex_hydrated). duration p \<in> \<int>"
    by (simp add: ex_hydrated_def ex_eval)
  have g: "on_grid ?iv (startTime ex_hydrated)" "on_grid ?iv (u_endTime ex_hydrated)"
    unfolding iv on_grid_def v by (rule exI [of _ 0], simp) (rule exI [of _ 4], simp)
  have a': "tasks ex_offgrid ''t1'' = Some ex_hydrated_offgrid"
    by (simp add: ex_offgrid_def ex_hydrated_offgrid_def addTask_def ex_task_def)
  have b': "\<not> is_fixedTime ex_hydrated_offgrid"
    by (simp add: ex_hydrated_offgrid_def ex_eval)
  have p': "pixelsPerHour (viewport ex_offgrid) \<noteq> 0"
    by (simp add: ex_offgrid_def ex_eval)
  have ok': "task_ok ex_hydrated_offgrid"
    unfolding ex_hydrated_offgrid_def by (rule task_ok_hydrateTask)
  have v': "u_totalDuration ex_hydrated_offgrid = 140"
      "\<forall>p \<in> set (phases ex_hydrated_offgrid). duration p \<in> \<int>"
    by (simp_all add: ex_hydrated_offgrid_def ex_eval)
  show ?thesis
    using a b p iv v(1,2) a' b' p'
      zero_movement_commit [OF a b p, of resize_end 100 0]
      zero_movement_commit [OF a b p, of move 7 9]
      zero_movement_commit [OF a' b' p', of move 7 9]
      zero_movement_commit [OF a' b' p', of resize_start 7 9]
      ok ints g v(3) ok' v'
    by simp
qed

section \<open>Resize commit\<close>

lemma resize_commit_times:
  assumes "drag_type d = resize_start \<or> drag_type d = resize_end"
    and "tasks s (taskId d) = Some ot" and "u_totalDuration ot \<noteq> 0"
  shows "\<exists>t'. committed_task (taskId d) (commit_times d a b s) = Some t' \<and>
           phases t' = scale_phases ((b - a) / 60000 / u_totalDuration ot) (phases ot)"
  using assms
  by (auto simp: committed_task_def commit_times_def Let_def updateTask_def apply_updates_def
        assign_updates_def recompute_def no_updates_def)

lemma durations_scale_phases:
  "map duration (scale_phases r ps) = map (\<lambda>p. of_int (round (duration p * r))) ps"
  by (simp add: scale_phases_def)

lemma durations_scale_half:
  assumes "map duration ps = [20, 100, 20]"
  shows "map duration (scale_phases (70 / 140) ps) = [10, 50, 10]"
proof -
  have "map duration (scale_phases (70 / 140) ps)
          = map (\<lambda>x. of_int (round (x * (70 / 140)))) (map duration ps)"
    by (simp add: scale_phases_def comp_def)
  also have "\<dots> = [10, 50, 10]"
    unfolding assms by (simp add: round_def)
  finally show ?thesis .
qed

text \<open>
  Claim C2, as stated, fails for the combined store: the ratio is taken from the span
  between the snapped preview times, not from the preview span. At the hour zoom level with
  the default \<open>minResolution\<close> of 30 minutes (snap interval 30 minutes), dragging the end
  of a task of 140 minutes 70 pixels to the left at 60 pixels per hour gives a preview from
  0:00 to 1:10; it is committed from 0:00 to 1:00, the ratio is \<open>60 / 140\<close>, and the
  phases 20, 100, 20 become 9, 43, 9.
\<close>

theorem resize_preview_span_counterexample:
  "map_option phase_durations (tasks ex_resized ''t1'') = Some [20, 100, 20] \<and>
   map_option preview_span (drag ex_resized) = Some (70 * 60000) \<and>
   map_option phase_durations (committed_task ''t1'' (commitDrag ex_resized)) = Some [9, 43, 9]"
  by (simp add: ex_resized_def ex_store_hour_def preview_span_def phase_durations_def ex_eval
        round_def)

text \<open>
  Claim C2, amended. \<open>commitDrag\<close> for a \<open>resize-start\<close> or \<open>resize-end\<close> drag without
  dependency violations, on a task that is in the store with a nonzero total duration,
  multiplies the duration of every phase of the stored task by the ratio
  \<open>newDuration / _totalDuration\<close> and rounds it, where \<open>newDuration\<close> is the committed
  span in minutes: the span between the snapped preview times in the combined store, the
  preview span itself in the legacy UI store. For phases 20, 100, 20 (total 140 minutes)
  and a committed span of 70 minutes the phase durations become 10, 50, 10.
\<close>

theorem resize_commit_scales_phases:
  assumes "drag s = Some d" and "dependencyViolations d = []"
    and "drag_type d = resize_start \<or> drag_type d = resize_end"
    and "tasks s (taskId d) = Some ot" and "u_totalDuration ot \<noteq> 0"
    and "iv = getSnapIntervalMs (zoomLevel (viewport s)) (minResolution s)"
    and "newDuration = (of_int (round (previewEndTime d / iv)) * iv
                          - of_int (round (previewStartTime d / iv)) * iv) / 60000"
    and "newDuration_ui = (previewEndTime d - previewStartTime d) / 60000"
  shows "(\<exists>t'. committed_task (taskId d) (commitDrag s) = Some t' \<and>
            map duration (phases t')
              = map (\<lambda>p. of_int (round (duration p * (newDuration / u_totalDuration ot)))) (phases ot) \<and>
            (map duration (phases ot) = [20, 100, 20] \<and> u_totalDuration ot = 140 \<and> newDuration = 70
               \<longrightarrow> map duration (phases t') = [10, 50, 10])) \<and>
         (\<exists>t'. committed_task (taskId d) (commitDrag_ui s) = Some t' \<and>
            map duration (phases t')
              = map (\<lambda>p. of_int (round (duration p * (newDuration_ui / u_totalDuration ot)))) (phases ot) \<and>
            (map duration (phases ot) = [20, 100, 20] \<and> u_totalDuration ot = 140 \<and> newDuration_ui = 70
               \<longrightarrow> map duration (phases t') = [10, 50, 10]))"
proof -
  have c: "commitDrag s = commit_times d (of_int (round (previewStartTime d / iv)) * iv)
                            (of_int (round (previewEndTime d / iv)) * iv) s"
    by (simp add: commitDrag_def assms(1,2,6) Let_def)
  have cu: "commitDrag_ui s = commit_times d (previewStartTime d) (previewEndTime d) s"
    by (simp add: commitDrag_ui_def assms(1,2))
  from resize_commit_times [OF assms(3,4,5)] obtain t' where
    t': "committed_task (taskId d) (commitDrag s) = Some t'"
        "phases t' = scale_phases (newDuration / u_totalDuration ot) (phases ot)"
    unfolding c assms(7) by blast
  from resize_commit_times [OF assms(3,4,5)] obtain t'' where
    t'': "committed_task (taskId d) (commitDrag_ui s) = Some t''"
        "phases t'' = scale_phases (newDuration_ui / u_totalDuration ot) (phases ot)"
    unfolding cu assms(8) by blast
  show ?thesis
    using t' t'' durations_scale_half [of "phases ot"]
    by (simp add: durations_scale_phases)
qed

theorem resize_commit_scales_phases_witness:
  "map_option preview_span (drag ex_resized35) = Some (70 * 60000) \<and>
   getSnapIntervalMs (zoomLevel (viewport ex_resized35)) (minResolution ex_resized35) = 35 * 60000 \<and>
   (\<exists>t'. committed_task ''t1'' (commitDrag ex_resized35) = Some t' \<and>
         map duration (phases t') = [10, 50, 10]) \<and>
   (\<exists>t'. committed_task ''t1'' (commitDrag_ui ex_resized35) = Some t' \<and>
         map duration (phases t') = [10, 50, 10])"
proof -
  have "\<exists>d. drag ex_resized35 = Some d \<and> dependencyViolations d = [] \<and> drag_type d = resize_end \<and>
            taskId d = ''t1'' \<and> previewStartTime d = 0 \<and> previewEndTime d = 4200000"
    by (simp add: ex_resized35_def ex_store35_def ex_store_hour_def ex_eval)
  then obtain d where d: "drag ex_resized35 = Some d" "dependencyViolations d = []"
      "drag_type d = resize_start \<or> drag_type d = resize_end" "taskId d = ''t1''"
      "previewStartTime d = 0" "previewEndTime d = 4200000"
    by auto
  have "\<exists>ot. tasks ex_resized35 ''t1'' = Some ot \<and> u_totalDuration ot = 140 \<and>
             map duration (phases ot) = [20, 100, 20]"
    by (simp add: ex_resized35_def ex_store35_def ex_store_hour_def ex_eval)
  then obtain ot where ot: "tasks ex_resized35 (taskId d) = Some ot" "u_totalDuration ot = 140"
      "map duration (phases ot) = [20, 100, 20]"
    using d(4) by auto
  have nz: "u_totalDuration ot \<noteq> 0" using ot(2) by simp
  have iv: "getSnapIntervalMs (zoomLevel (viewport ex_resized35)) (minResolution ex_resized35)
              = 35 * 60000"
    by (simp add: ex_resized35_def ex_store35_def ex_store_hour_def ex_eval)
  have n: "(70::real) = (of_int (round (previewEndTime d / (35 * 60000))) * (35 * 60000)
              - of_int (round (previewStartTime d / (35 * 60000))) * (35 * 60000)) / 60000"
    by (simp add: d(5,6) round_def)
  have nu: "(70::real) = (previewEndTime d - previewStartTime d) / 60000"
    by (simp add: d(5,6))
  have sp: "map_option preview_span (drag ex_resized35) = Some (70 * 60000)"
    by (simp add: d(1,5,6) preview_span_def)
  from resize_commit_scales_phases [OF d(1,2,3) ot(1) nz iv [symmetric] n nu]
  obtain t' t'' where
    "committed_task (taskId d) (commitDrag ex_resized35) = Some t'"
    "map duration (phases ot) = [20, 100, 20] \<and> u_totalDuration ot = 140 \<and> (70::real) = 70
       \<longrightarrow> map duration (phases t') = [10, 50, 10]"
    "committed_task (taskId d) (commitDrag_ui ex_resized35) = Some t''"
    "map duration (phases ot) = [20, 100, 20] \<and> u_totalDuration ot = 140 \<and> (70::real) = 70
       \<longrightarrow> map duration (phases t'') = [10, 50, 10]"
    by (elim conjE exE)
  with sp iv ot(2,3) d(4) show ?thesis by simp
qed

section \<open>Undo\<close>

lemma equality_iff: "equality a b \<longleftrightarrow> a = b"
  by (cases a, cases b) (simp add: equality_def)

lemma length_pastStates_temporal_set:
  "length (pastStates h) \<le> history_limit \<Longrightarrow> length (pastStates (temporal_set f h)) \<le> history_limit"
  by (auto simp: temporal_set_def Let_def history_limit_def)

text \<open>The oldest state of a history, \<open>hd (pastStates h @ [present h])\<close>, is what is left
  when everything is undone; an update below the limit keeps it and adds at most one entry.\<close>

lemma temporal_set_oldest:
  assumes "length (pastStates h) < history_limit"
  shows "hd (pastStates (temporal_set f h) @ [present (temporal_set f h)])
           = hd (pastStates h @ [present h]) \<and>
         length (pastStates (temporal_set f h)) \<le> Suc (length (pastStates h))"
proof (cases "equality (present h) (f (present h))")
  case True
  then have "f (present h) = present h" by (simp add: equality_iff)
  then show ?thesis by (simp add: temporal_set_def Let_def equality_iff)
next
  case False
  with assms show ?thesis
    by (cases "pastStates h") (simp_all add: temporal_set_def Let_def)
qed

lemma undo_oldest:
  "hd (pastStates (undo h) @ [present (undo h)]) = hd (pastStates h @ [present h]) \<and>
   length (pastStates (undo h)) = length (pastStates h) - 1"
proof (cases "pastStates h" rule: rev_cases)
  case Nil
  then show ?thesis by (simp add: undo_def)
next
  case (snoc xs x)
  then show ?thesis by (cases xs) (simp_all add: undo_def)
qed

lemma undo_all:
  "length (pastStates h) \<le> n \<Longrightarrow>
   pastStates ((undo ^^ n) h) = [] \<and> present ((undo ^^ n) h) = hd (pastStates h @ [present h])"
proof (induction n arbitrary: h)
  case 0
  then show ?case by simp
next
  case (Suc n)
  have "length (pastStates (undo h)) \<le> n"
    using Suc.prems undo_oldest [of h] by simp
  from Suc.IH [OF this] undo_oldest [of h] show ?case
    by (simp add: funpow_swap1)
qed

lemma undo_empty: "pastStates h = [] \<Longrightarrow> undo h = h"
  by (simp add: undo_def)

text \<open>
  Claim C4. From a data store with an empty undo history, after three \<open>moveTasks\<close>
  updates, three \<open>undo\<close> calls give back the task collection the store started with, and
  a fourth \<open>undo\<close> changes nothing, neither the store nor the history. An update never
  leaves more than 50 entries in a history that had at most 50. The entries are states of
  the data store (type \<open>GanttDataState\<close>), which has no viewport, selection or drag state.
\<close>

theorem undo_three_moves:
  assumes "pastStates h0 = []"
    and "h3 = temporal_set (moveTasks ids3 d3 r3)
                (temporal_set (moveTasks ids2 d2 r2)
                  (temporal_set (moveTasks ids1 d1 r1) h0))"
  shows "tasks (present (undo (undo (undo h3)))) = tasks (present h0) \<and>
         undo (undo (undo (undo h3))) = undo (undo (undo h3)) \<and>
         (length (pastStates h) \<le> 50 \<longrightarrow> length (pastStates (temporal_set f h)) \<le> 50)"
proof -
  define h1 where "h1 = temporal_set (moveTasks ids1 d1 r1) h0"
  define h2 where "h2 = temporal_set (moveTasks ids2 d2 r2) h1"
  have h3: "h3 = temporal_set (moveTasks ids3 d3 r3) h2"
    by (simp add: assms(2) h1_def h2_def)
  have o0: "hd (pastStates h0 @ [present h0]) = present h0" "length (pastStates h0) \<le> 0"
    using assms(1) by simp_all
  have o1: "hd (pastStates h1 @ [present h1]) = present h0" "length (pastStates h1) \<le> 1"
    using temporal_set_oldest [of h0 "moveTasks ids1 d1 r1"] o0
    by (simp_all add: h1_def history_limit_def)
  have o2: "hd (pastStates h2 @ [present h2]) = present h0" "length (pastStates h2) \<le> 2"
    using temporal_set_oldest [of h1 "moveTasks ids2 d2 r2"] o1
    by (simp_all add: h2_def history_limit_def)
  have o3: "hd (pastStates h3 @ [present h3]) = present h0" "length (pastStates h3) \<le> 3"
    using temporal_set_oldest [of h2 "moveTasks ids3 d3 r3"] o2
    by (simp_all add: h3 history_limit_def)
  have u: "(undo ^^ 3) h3 = undo (undo (undo h3))"
    by (simp add: numeral_3_eq_3)
  from undo_all [OF o3(2)] o3(1) u
  have a: "present (undo (undo (undo h3))) = present h0"
    and b: "pastStates (undo (undo (undo h3))) = []"
    by simp_all
  from a undo_empty [OF b] length_pastStates_temporal_set [of h f] show ?thesis
    by (simp add: history_limit_def)
qed

theorem undo_three_moves_witness:
  "pastStates ex_history = [] \<and>
   length (pastStates ex_moved) = 3 \<and>
   tasks (present ex_moved) \<noteq> tasks (present ex_history) \<and>
   tasks (present (undo (undo (undo ex_moved)))) = tasks (present ex_history) \<and>
   undo (undo (undo (undo ex_moved))) = undo (undo (undo ex_moved)) \<and>
   length (pastStates ex_full) = 50 \<and>
   length (pastStates (temporal_set (moveTasks [''t1''] 5000 None) ex_full)) \<le> 50"
proof -
  define s0 where "s0 = present ex_history"
  define s1 where "s1 = moveTasks [''t1''] 5000 None s0"
  define s2 where "s2 = moveTasks [''t1'', ''t9''] 1000 (Some ''r2'') s1"
  define s3 where "s3 = moveTasks [''t1''] (-250) None s2"
  have a: "pastStates ex_history = []" by (simp add: ex_history_def)
  have t0: "map_option startTime (tasks s0 ''t1'') = Some 0" "tasks s0 ''t9'' = None"
    by (simp_all add: s0_def ex_history_def addTask_def ex_task_def hydrateTask_def Let_def
          StoredTask.extend_def)
  have f0: "map_option is_fixedTime (tasks s0 ''t1'') = Some False"
    by (simp add: s0_def ex_history_def addTask_def ex_task_def hydrateTask_def Let_def
          StoredTask.extend_def is_fixedTime_def)
  have t1: "map_option startTime (tasks s1 ''t1'') = Some 5000" "tasks s1 ''t9'' = None"
    and f1: "map_option is_fixedTime (tasks s1 ''t1'') = Some False"
    using t0 f0
    by (auto simp: s1_def moveTasks_def move_one_def Let_def is_fixedTime_def
          split: option.splits)
  have t2: "map_option startTime (tasks s2 ''t1'') = Some 6000"
    and f2: "map_option is_fixedTime (tasks s2 ''t1'') = Some False"
    using t1 f1
    by (auto simp: s2_def moveTasks_def move_one_def Let_def is_fixedTime_def
          split: option.splits)
  have t3: "map_option startTime (tasks s3 ''t1'') = Some 5750"
    using t2 f2
    by (auto simp: s3_def moveTasks_def move_one_def Let_def is_fixedTime_def
          split: option.splits)
  have ne: "s1 \<noteq> s0" "s2 \<noteq> s1" "s3 \<noteq> s2" "tasks s3 \<noteq> tasks s0"
    using t0 t1 t2 t3 by auto
  have m: "ex_moved = \<lparr> present = s3, pastStates = [s0, s1, s2], futureStates = [] \<rparr>"
    using ne(1,2,3) a
    by (simp add: ex_moved_def temporal_set_def Let_def equality_iff history_limit_def
          s3_def [symmetric] s2_def [symmetric] s1_def [symmetric] s0_def [symmetric])
  have b: "length (pastStates ex_moved) = 3" "tasks (present ex_moved) \<noteq> tasks (present ex_history)"
    using ne(4) by (simp_all add: m s0_def)
  have c: "length (pastStates ex_full) = 50" by (simp add: ex_full_def)
  show ?thesis
    using a b c undo_three_moves [OF a ex_moved_def, of ex_full "moveTasks [''t1''] 5000 None"]
    by simp
qed

end
